theory Spec2Isabelle
  imports Main "HOL-Library.Sublist"
begin

unbundle bit_operations_syntax

section \<open>Records, computed fields and the resolver\<close>

text \<open>
  A model instance is its class (\<open>type(instance)\<close>), the value of its property \<open>pk\<close> and
  its attribute dictionary. Field values are kept abstract (\<open>'v\<close>); models are identified
  by \<open>'m\<close>. Every raise of the source is a value of the type \<open>error\<close>.
\<close>

record ('m, 'v) inst =
  cls :: 'm
  pk :: 'v
  attrs :: "string \<rightharpoonup> 'v"

datatype error =
    AttributeError string
  | KeyError
  | ValueError
  | FieldDoesNotExist string
  | RecursionError
  | DatabaseError string
  | Raised string

text \<open>
  \<open>field._computed\<close>: the compute function of a computed field and its queryset hints.
  The function reads the record it is given and may raise.
\<close>

record ('m, 'v) computed =
  func :: "('m, 'v) inst \<Rightarrow> error + 'v"
  select_related :: "string list"
  prefetch_related :: "string list"

text \<open>
  One entry of \<open>_local_mro\<close>: the ordered base sequence and, per field name, the bitmask
  of the positions of the base sequence that depend on it. Python integers are unbounded,
  so the masks are of type \<open>int\<close>.
\<close>

record mro_entry =
  base :: "string list"
  mro_fields :: "string \<rightharpoonup> int"

text \<open>
  The resolver, as far as the runtime methods read it: \<open>_computed_models\<close>, \<open>_map\<close> (the
  lookup map: per model and changed field name the dependent models, each with its field
  names and relation paths), \<open>_local_mro\<close>, \<open>_batchsize\<close> and \<open>use_fastupdate\<close>. The maps
  are built by \<open>graph.py\<close>; here they are given. A dictionary whose order matters is an
  association list.
\<close>

record ('m, 'v) resolver =
  computed_models :: "'m \<rightharpoonup> (string \<rightharpoonup> ('m, 'v) computed)"
  lookup_map :: "'m \<rightharpoonup> (string \<times> ('m \<times> string list \<times> string list) list) list"
  local_mro :: "'m \<rightharpoonup> mro_entry"
  batchsize :: int
  use_fastupdate :: "bool option"

subsection \<open>Attribute access\<close>

definition getattr :: "('m, 'v) inst \<Rightarrow> string \<Rightarrow> error + 'v" where
  "getattr instance name =
     (case attrs instance name of
        None \<Rightarrow> Inl (AttributeError name)
      | Some v \<Rightarrow> Inr v)"

definition setattr :: "('m, 'v) inst \<Rightarrow> string \<Rightarrow> 'v \<Rightarrow> ('m, 'v) inst" where
  "setattr instance name v = instance\<lparr>attrs := (attrs instance)(name \<mapsto> v)\<rparr>"

subsection \<open>\<open>Resolver.get_local_mro\<close>\<close>

text \<open>\<open>fields.get(field, 0)\<close>\<close>

definition fields_get :: "mro_entry \<Rightarrow> string \<Rightarrow> int" where
  "fields_get entry field = (case mro_fields entry field of None \<Rightarrow> 0 | Some b \<Rightarrow> b)"

text \<open>
  The \<open>frozenset\<close> of the update fields is walked once per distinct name; the order of
  that walk is not fixed in Python, the model takes the order of first occurrence.
\<close>

definition get_local_mro ::
  "('m, 'v) resolver \<Rightarrow> 'm \<Rightarrow> string list option \<Rightarrow> string list" where
  "get_local_mro self model update_fields =
     (case local_mro self model of
        None \<Rightarrow> []
      | Some entry \<Rightarrow>
          (case update_fields of
             None \<Rightarrow> base entry
           | Some ufs \<Rightarrow>
               (let mro = fold (\<lambda>field mro. mro OR fields_get entry field) (remdups ufs) 0
                in map snd (filter (\<lambda>(pos, name). mro AND push_bit pos 1 \<noteq> 0)
                                   (enumerate 0 (base entry))))))"

subsection \<open>\<open>Resolver._compute\<close>, \<open>Resolver.has_computedfields\<close>\<close>

text \<open>
  What a call does to the record it is given is kept as a list of events: every call of
  a compute function and every attribute assignment, in the order they happen.
\<close>

datatype 'v event = Call string | SetAttr string 'v

text \<open>
  A leading underscore of a source name is written \<open>u_\<close>. Both dictionary lookups of
  \<open>self._computed_models[model][fieldname]\<close> raise \<open>KeyError\<close> on a missing key.
\<close>

definition u_compute ::
  "('m, 'v) resolver \<Rightarrow> ('m, 'v) inst \<Rightarrow> 'm \<Rightarrow> string \<Rightarrow> error + 'v" where
  "u_compute self instance model fieldname =
     (case computed_models self model of
        None \<Rightarrow> Inl KeyError
      | Some cfs \<Rightarrow>
          (case cfs fieldname of
             None \<Rightarrow> Inl KeyError
           | Some field \<Rightarrow> func field instance))"

text \<open>
  The events of a call of \<open>_compute\<close> that raises: the compute function has been called
  only when both lookups have found the field.
\<close>

definition called :: "('m, 'v) resolver \<Rightarrow> 'm \<Rightarrow> string \<Rightarrow> 'v event list" where
  "called self model fieldname =
     (case computed_models self model of
        None \<Rightarrow> []
      | Some cfs \<Rightarrow>
          (case cfs fieldname of
             None \<Rightarrow> []
           | Some field \<Rightarrow> [Call fieldname]))"

definition has_computedfields :: "('m, 'v) resolver \<Rightarrow> 'm \<Rightarrow> bool" where
  "has_computedfields self model \<longleftrightarrow> computed_models self model \<noteq> None"

subsection \<open>\<open>Resolver.compute\<close>\<close>

text \<open>\<open>mro.index(fieldname)\<close>: the first position, \<open>ValueError\<close> when there is none.\<close>

fun index :: "string list \<Rightarrow> string \<Rightarrow> error + nat" where
  "index [] x = Inl ValueError"
| "index (y # ys) x =
     (if y = x then Inr 0
      else (case index ys x of Inl e \<Rightarrow> Inl e | Inr n \<Rightarrow> Inr (Suc n)))"

text \<open>The rewinding loop \<open>for field2, old in stack: setattr(instance, field2, old)\<close>.\<close>

definition rewind :: "(string \<times> 'v) list \<Rightarrow> ('m, 'v) inst \<Rightarrow> ('m, 'v) inst" where
  "rewind stack instance = fold (\<lambda>(field2, old) i. setattr i field2 old) stack instance"

text \<open>
  The loop \<open>for field in mro\<close> of \<open>compute\<close>, on the fields still to visit. Falling off
  the end of the loop returns Python's \<open>None\<close>, the result \<open>Inr None\<close> here. An exception
  leaves the record as it is at that moment.
\<close>

fun compute_loop ::
  "('m, 'v) resolver \<Rightarrow> mro_entry \<Rightarrow> int \<Rightarrow> 'm \<Rightarrow> string \<Rightarrow> string list \<Rightarrow>
   (string \<times> 'v) list \<Rightarrow> ('m, 'v) inst \<Rightarrow> 'v event list \<Rightarrow>
   (error + 'v option) \<times> ('m, 'v) inst \<times> 'v event list" where
  "compute_loop self entries pos model fieldname [] stack instance log =
     (Inr None, instance, log)"
| "compute_loop self entries pos model fieldname (field # mro) stack instance log =
     (if field = fieldname then
        (case u_compute self instance model fieldname of
           Inl e \<Rightarrow> (Inl e, instance, log @ called self model fieldname)
         | Inr ret \<Rightarrow>
             (Inr (Some ret), rewind stack instance,
              log @ Call fieldname # map (\<lambda>(field2, old). SetAttr field2 old) stack))
      else if fields_get entries field AND pos \<noteq> 0 then
        (case getattr instance field of
           Inl e \<Rightarrow> (Inl e, instance, log)
         | Inr old \<Rightarrow>
             (case u_compute self instance model field of
                Inl e \<Rightarrow> (Inl e, instance, log @ called self model field)
              | Inr v \<Rightarrow>
                  compute_loop self entries pos model fieldname mro (stack @ [(field, old)])
                    (setattr instance field v) (log @ [Call field, SetAttr field v])))
      else compute_loop self entries pos model fieldname mro stack instance log)"

definition compute ::
  "('m, 'v) resolver \<Rightarrow> ('m, 'v) inst \<Rightarrow> string \<Rightarrow>
   (error + 'v option) \<times> ('m, 'v) inst \<times> 'v event list" where
  "compute self instance fieldname =
     (let mro = get_local_mro self (cls instance) None in
      if fieldname \<notin> set mro then
        (case getattr instance fieldname of
           Inl e \<Rightarrow> (Inl e, instance, [])
         | Inr v \<Rightarrow> (Inr (Some v), instance, []))
      else
        (case local_mro self (cls instance) of
           None \<Rightarrow> (Inl KeyError, instance, [])
         | Some entries \<Rightarrow>
             (case index mro fieldname of
                Inl e \<Rightarrow> (Inl e, instance, [])
              | Inr n \<Rightarrow>
                  compute_loop self entries (push_bit n 1) (cls instance) fieldname mro []
                    instance [])))"

subsection \<open>\<open>Resolver.update_computedfields\<close>\<close>

text \<open>The loop \<open>for fieldname in cf_mro: setattr(instance, fieldname, self._compute(...))\<close>.\<close>

fun assign_loop ::
  "('m, 'v) resolver \<Rightarrow> 'm \<Rightarrow> string list \<Rightarrow> ('m, 'v) inst \<Rightarrow> 'v event list \<Rightarrow>
   (error + unit) \<times> ('m, 'v) inst \<times> 'v event list" where
  "assign_loop self model [] instance log = (Inr (), instance, log)"
| "assign_loop self model (fieldname # cf_mro) instance log =
     (case u_compute self instance model fieldname of
        Inl e \<Rightarrow> (Inl e, instance, log @ called self model fieldname)
      | Inr v \<Rightarrow>
          assign_loop self model cf_mro (setattr instance fieldname v)
            (log @ [Call fieldname, SetAttr fieldname v]))"

text \<open>Truth value of an optional iterable of names: neither \<open>None\<close> nor empty.\<close>

definition truthy :: "string list option \<Rightarrow> bool" where
  "truthy update_fields \<longleftrightarrow> (case update_fields of None \<Rightarrow> False | Some ufs \<Rightarrow> ufs \<noteq> [])"

text \<open>
  The result is \<open>None\<close> or a set of field names. For a model without computed fields the
  argument is handed back as it came; the model returns its names as a set as well.
\<close>

definition update_computedfields ::
  "('m, 'v) resolver \<Rightarrow> ('m, 'v) inst \<Rightarrow> string list option \<Rightarrow>
   (error + string set option) \<times> ('m, 'v) inst \<times> 'v event list" where
  "update_computedfields self instance update_fields =
     (let model = cls instance in
      if \<not> has_computedfields self model then
        (Inr (map_option set update_fields), instance, [])
      else
        (let cf_mro = get_local_mro self model update_fields;
             update_fields' =
               (if truthy update_fields
                then Some (set (the update_fields) \<union> set cf_mro)
                else map_option set update_fields)
         in (case assign_loop self model cf_mro instance [] of
               (Inl e, instance', log) \<Rightarrow> (Inl e, instance', log)
             | (Inr _, instance', log) \<Rightarrow>
                 (if truthy update_fields then (Inr update_fields', instance', log)
                  else (Inr None, instance', log)))))"

subsection \<open>The record loop of \<open>Resolver.bulk_updater\<close>\<close>

text \<open>
  The inner loop \<open>for comp_field in mro\<close> on one record: a field is assigned only when
  \<open>new_value != getattr(elem, comp_field)\<close> holds. Python's \<open>!=\<close> belongs to the values
  and need not be the negation of equality (\<open>nan != nan\<close> holds); it is the parameter
  \<open>ne\<close>.
\<close>

fun recalc ::
  "('v \<Rightarrow> 'v \<Rightarrow> bool) \<Rightarrow> ('m, 'v) resolver \<Rightarrow> 'm \<Rightarrow> string list \<Rightarrow> ('m, 'v) inst \<Rightarrow> bool \<Rightarrow>
   error + ('m, 'v) inst \<times> bool" where
  "recalc ne self model [] elem has_changed = Inr (elem, has_changed)"
| "recalc ne self model (comp_field # mro) elem has_changed =
     (case u_compute self elem model comp_field of
        Inl e \<Rightarrow> Inl e
      | Inr new_value \<Rightarrow>
          (case getattr elem comp_field of
             Inl e \<Rightarrow> Inl e
           | Inr cur \<Rightarrow>
               (if ne new_value cur
                then recalc ne self model mro (setattr elem comp_field new_value) True
                else recalc ne self model mro elem has_changed)))"

text \<open>
  One call \<open>self._update(queryset, change, fields)\<close>: the records of the batch and the
  field names to write (a set in the source, here a list without repetitions).
\<close>

datatype ('m, 'v) db_write = Update "('m, 'v) inst list" "string list"

text \<open>
  The outer loop \<open>for elem in queryset\<close> with the batch \<open>change\<close> and the writes issued so
  far. The result holds the records as the loop leaves them (the queryset caches the very
  objects the loop assigns to), the batch that is still open and the writes. An exception
  ends the loop; the writes issued before it stay issued.
\<close>

fun walk ::
  "('v \<Rightarrow> 'v \<Rightarrow> bool) \<Rightarrow> ('m, 'v) resolver \<Rightarrow> 'm \<Rightarrow> string list \<Rightarrow> string list \<Rightarrow> ('m, 'v) inst list \<Rightarrow>
   ('m, 'v) inst list \<Rightarrow> ('m, 'v) inst list \<Rightarrow> ('m, 'v) db_write list \<Rightarrow>
   (error + ('m, 'v) inst list \<times> ('m, 'v) inst list) \<times> ('m, 'v) db_write list" where
  "walk ne self model mro flds [] seen change writes = (Inr (seen, change), writes)"
| "walk ne self model mro flds (elem # queryset) seen change writes =
     (case recalc ne self model mro elem False of
        Inl e \<Rightarrow> (Inl e, writes)
      | Inr (elem', has_changed) \<Rightarrow>
          (let change' = (if has_changed then change @ [elem'] else change) in
           if int (length change') \<ge> batchsize self
           then walk ne self model mro flds queryset (seen @ [elem']) []
                  (writes @ [Update change' flds])
           else walk ne self model mro flds queryset (seen @ [elem']) change' writes))"

text \<open>
  Lines 646 to 661 of \<open>bulk_updater\<close>: nothing is walked when the set of fields is empty,
  and a batch left open at the end of the loop is written. The set \<open>fields = set(mro)\<close> is
  kept as the list of the distinct names of the MRO.
\<close>

definition update_records ::
  "('v \<Rightarrow> 'v \<Rightarrow> bool) \<Rightarrow> ('m, 'v) resolver \<Rightarrow> 'm \<Rightarrow> string list \<Rightarrow> ('m, 'v) inst list \<Rightarrow>
   (error + ('m, 'v) inst list) \<times> ('m, 'v) db_write list" where
  "update_records ne self model mro queryset =
     (let flds = remdups mro in
      if flds \<noteq> [] then
        (case walk ne self model mro flds queryset [] [] [] of
           (Inl e, writes) \<Rightarrow> (Inl e, writes)
         | (Inr (seen, change), writes) \<Rightarrow>
             (if change \<noteq> [] then (Inr seen, writes @ [Update change flds])
              else (Inr seen, writes)))
      else (Inr queryset, []))"

section \<open>\<open>fast_update.py\<close>\<close>

subsection \<open>Fields, model options and the connection\<close>

text \<open>
  Of a Django field the code reads the column and the attribute name; of the options
  \<open>model._meta\<close> it reads \<open>get_field\<close> (which raises \<open>FieldDoesNotExist\<close> for an unknown
  name), the local fields, the table name and the primary key field, which may be
  missing.
\<close>

record Field =
  column :: string
  attname :: string

record meta =
  get_field :: "string \<rightharpoonup> Field"
  local_fields :: "Field list"
  db_table :: string
  meta_pk :: "Field option"

text \<open>A bound parameter of a statement: a prepared field value or a plain number.\<close>

datatype 'v param = Param 'v | Num int

text \<open>
  The database connection, as far as the code depends on it: the vendor, the hash of the
  underlying connection object and whether that object exists yet, the version of the
  sqlite library, and what lies outside the repository: the conversion
  \<open>get_db_prep_save\<close> of a field value, the text of Django's cast of a column for
  postgresql, and whether the server accepts the two probing statements.
\<close>

record 'v connection =
  vendor :: string
  handle :: nat
  is_open :: bool
  sqlite_version_info :: "int \<times> int \<times> int"
  get_db_prep_save :: "Field \<Rightarrow> 'v \<Rightarrow> 'v"
  cast_col :: "string \<Rightarrow> Field \<Rightarrow> string"
  accepts_values :: bool
  accepts_row :: bool

text \<open>
  The steps of a call, in order: a statement text is built for a batch cardinality, a
  probing statement is sent to find the dialect, an update statement is executed with
  its parameters, \<open>bulk_update\<close> of the model's manager is called (with the records, the
  field names and the batch size, if one is given).
\<close>

datatype ('m, 'v) db_op =
    Generate int
  | Probe string
  | Execute string "'v param list"
  | Bulk_update "('m, 'v) inst list" "string list" "int option"

subsection \<open>Statement texts\<close>

text \<open>\<open>str(n)\<close> for a natural number, \<open>sep.join(xs)\<close> and \<open>[x] * n\<close>.\<close>

function str :: "nat \<Rightarrow> string" where
  "str n = (if n < 10 then [char_of (48 + n)] else str (n div 10) @ [char_of (48 + n mod 10)])"
  by pat_completeness auto
termination
  by (relation "measure id") auto

declare str.simps [simp del]

fun join :: "string \<Rightarrow> string list \<Rightarrow> string" where
  "join sep [] = []"
| "join sep [x] = x"
| "join sep (x # y # ys) = x @ sep @ join sep (y # ys)"

definition repeat :: "'a \<Rightarrow> int \<Rightarrow> 'a list" where
  "repeat x n = replicate (nat n) x"

text \<open>A name between double quotes, and between backticks.\<close>

definition dq :: "string \<Rightarrow> string" where
  "dq x = CHR 0x22 # x @ [CHR 0x22]"

definition bq :: "string \<Rightarrow> string" where
  "bq x = CHR 0x60 # x @ [CHR 0x60]"

definition u_cast_col_postgres :: "string \<Rightarrow> Field \<Rightarrow> 'v connection \<Rightarrow> string" where
  "u_cast_col_postgres tname f connection = cast_col connection tname f"

definition as_dummy ::
  "string \<Rightarrow> string \<Rightarrow> Field list \<Rightarrow> int \<Rightarrow> 'v connection \<Rightarrow> string" where
  "as_dummy tname pkname flds count connection = []"

definition as_postgresql ::
  "string \<Rightarrow> string \<Rightarrow> Field list \<Rightarrow> int \<Rightarrow> 'v connection \<Rightarrow> string" where
  "as_postgresql tname pkname flds count connection =
     (let dname = (if tname \<noteq> ''d'' then ''d'' else ''c'');
          cols = join '','' (map (\<lambda>f. dq (column f) @ ''='' @
                                     u_cast_col_postgres dname f connection) flds);
          val = ''('' @ join '','' (repeat ''%s'' (int (length flds) + 1)) @ '')'';
          vals = join '','' (repeat val count);
          dcols = dq pkname @ '','' @ join '','' (map (\<lambda>f. dq (column f)) flds);
          wher = dq tname @ ''.'' @ dq pkname @ ''='' @ dq dname @ ''.'' @ dq pkname
      in ''UPDATE '' @ dq tname @ '' SET '' @ cols @ '' FROM (VALUES '' @ vals @ '') AS '' @
           dq dname @ '' ('' @ dcols @ '') WHERE '' @ wher)"

definition as_sqlite ::
  "string \<Rightarrow> string \<Rightarrow> Field list \<Rightarrow> int \<Rightarrow> 'v connection \<Rightarrow> string" where
  "as_sqlite tname pkname flds count connection =
     (let dname = (if tname \<noteq> ''d'' then ''d'' else ''c'');
          cols = join '','' (map (\<lambda>(i, f). dq (column f) @ ''='' @ dq dname @ ''.'' @
                                     dq (''column'' @ str (i + 2)))
                               (enumerate 0 flds));
          val = ''('' @ join '','' (repeat ''%s'' (int (length flds) + 1)) @ '')'';
          vals = join '','' (repeat val count);
          wher = dq tname @ ''.'' @ dq pkname @ ''='' @ dq dname @ ''.'' @ dq ''column1''
      in ''UPDATE '' @ dq tname @ '' SET '' @ cols @ '' FROM (VALUES '' @ vals @ '') AS '' @
           dq dname @ '' WHERE '' @ wher)"

definition as_mysql ::
  "string \<Rightarrow> string \<Rightarrow> Field list \<Rightarrow> int \<Rightarrow> 'v connection \<Rightarrow> string" where
  "as_mysql tname pkname flds count connection =
     (let dname = (if tname \<noteq> ''d'' then ''d'' else ''c'');
          cols = join '','' (map (\<lambda>(i, f). bq (column f) @ ''='' @ dname @ ''.'' @ str (i + 1))
                               (enumerate 0 flds));
          val = ''('' @ join '','' (repeat ''%s'' (int (length flds) + 1)) @ '')'';
          vals = join '','' (repeat val (count + 1));
          on_clause = bq tname @ ''.'' @ bq pkname @ '' = '' @ dname @ ''.0''
      in ''UPDATE '' @ bq tname @ '' INNER JOIN (VALUES '' @ vals @ '') AS '' @ dname @
           '' ON '' @ on_clause @ '' SET '' @ cols)"

definition as_mysql8 ::
  "string \<Rightarrow> string \<Rightarrow> Field list \<Rightarrow> int \<Rightarrow> 'v connection \<Rightarrow> string" where
  "as_mysql8 tname pkname flds count connection =
     (let dname = (if tname \<noteq> ''d'' then ''d'' else ''c'');
          cols = join '','' (map (\<lambda>(i, f). bq (column f) @ ''='' @ dname @ ''.column_'' @
                                     str (i + 1))
                               (enumerate 0 flds));
          val = ''ROW('' @ join '','' (repeat ''%s'' (int (length flds) + 1)) @ '')'';
          vals = join '','' (repeat val count);
          on_clause = bq tname @ ''.'' @ bq pkname @ '' = '' @ dname @ ''.column_0''
      in ''UPDATE '' @ bq tname @ '' INNER JOIN (VALUES '' @ vals @ '') AS '' @ dname @
           '' ON '' @ on_clause @ '' SET '' @ cols)"

text \<open>\<open>QUERY.get(vendor, as_dummy)\<close>\<close>

definition QUERY_get ::
  "string \<Rightarrow> string \<Rightarrow> string \<Rightarrow> Field list \<Rightarrow> int \<Rightarrow> 'v connection \<Rightarrow> string" where
  "QUERY_get vend =
     (if vend = ''sqlite'' then as_sqlite
      else if vend = ''postgresql'' then as_postgresql
      else if vend = ''mysql'' then as_mysql
      else if vend = ''mysql8'' then as_mysql8
      else as_dummy)"

subsection \<open>\<open>_adjust_mysql\<close> and \<open>check_support\<close>\<close>

text \<open>
  \<open>CONNECTION_HASHES\<close> is the module's dictionary from the hash of a connection object to
  the dialect found for it. A probe opens a cursor, which creates the connection object
  when there is none yet; a probing statement the server rejects raises
  \<open>ProgrammingError\<close>, which is caught.
\<close>

definition values_probe :: string where
  "values_probe = ''SELECT foo.0 FROM (VALUES (0, 1), (1, '' @ CHR 0x27 # ''zzz'' @
     CHR 0x27 # ''),(2, '' @ CHR 0x27 # ''yyy'' @ CHR 0x27 # '')) as foo''"

definition row_probe :: string where
  "row_probe = ''SELECT column_1 FROM (VALUES ROW(1, '' @ CHR 0x27 # ''zzz'' @
     CHR 0x27 # ''), ROW(2, '' @ CHR 0x27 # ''yyy'' @ CHR 0x27 # '')) as foo''"

definition u_adjust_mysql ::
  "'v connection \<Rightarrow> (nat \<rightharpoonup> string) \<Rightarrow>
   string \<times> ('m, 'v) db_op list \<times> (nat \<rightharpoonup> string)" where
  "u_adjust_mysql connection CONNECTION_HASHES =
     (case (if is_open connection then CONNECTION_HASHES (handle connection) else None) of
        Some vend \<Rightarrow> (vend, [], CONNECTION_HASHES)
      | None \<Rightarrow>
          if accepts_values connection then
            (''mysql'', [Probe values_probe],
             CONNECTION_HASHES(handle connection \<mapsto> ''mysql''))
          else if accepts_row connection then
            (''mysql8'', [Probe values_probe, Probe row_probe],
             CONNECTION_HASHES(handle connection \<mapsto> ''mysql8''))
          else
            ([], [Probe values_probe, Probe row_probe],
             CONNECTION_HASHES(handle connection \<mapsto> [])))"

definition check_support ::
  "'v connection \<Rightarrow> (nat \<rightharpoonup> string) \<Rightarrow> bool \<times> ('m, 'v) db_op list \<times> (nat \<rightharpoonup> string)" where
  "check_support connection CONNECTION_HASHES =
     (if vendor connection = ''postgresql'' then (True, [], CONNECTION_HASHES)
      else if vendor connection = ''sqlite'' then
        (case sqlite_version_info connection of
           (major, minor, _) \<Rightarrow> (major \<ge> 3 \<and> minor > 32, [], CONNECTION_HASHES))
      else if vendor connection = ''mysql'' then
        (case u_adjust_mysql connection CONNECTION_HASHES of
           (v, ops, hashes) \<Rightarrow> (v \<noteq> [], ops, hashes))
      else (False, [], CONNECTION_HASHES))"

subsection \<open>\<open>fast_update\<close>\<close>

text \<open>The first loop: the field names that are not local to the model, and the local ones.\<close>

fun split_fieldnames ::
  "meta \<Rightarrow> string list \<Rightarrow> string list \<Rightarrow> string list \<Rightarrow> error + string list \<times> string list" where
  "split_fieldnames m [] non_local_fieldnames local_fieldnames =
     Inr (non_local_fieldnames, local_fieldnames)"
| "split_fieldnames m (f # fieldnames) non_local_fieldnames local_fieldnames =
     (case get_field m f of
        None \<Rightarrow> Inl (FieldDoesNotExist f)
      | Some fld \<Rightarrow>
          if fld \<notin> set (local_fields m)
          then split_fieldnames m fieldnames (non_local_fieldnames @ [f]) local_fieldnames
          else split_fieldnames m fieldnames non_local_fieldnames (local_fieldnames @ [f]))"

text \<open>\<open>fields = [model._meta.get_field(f) for f in local_fieldnames]\<close>\<close>

fun get_fields :: "meta \<Rightarrow> string list \<Rightarrow> error + Field list" where
  "get_fields m [] = Inr []"
| "get_fields m (f # fs) =
     (case get_field m f of
        None \<Rightarrow> Inl (FieldDoesNotExist f)
      | Some fld \<Rightarrow> (case get_fields m fs of Inl e \<Rightarrow> Inl e | Inr flds \<Rightarrow> Inr (fld # flds)))"

text \<open>The values of one record, the primary key first.\<close>

fun prep_values ::
  "'v connection \<Rightarrow> Field list \<Rightarrow> ('m, 'v) inst \<Rightarrow> error + 'v param list" where
  "prep_values connection [] obj = Inr []"
| "prep_values connection (fld # flds) obj =
     (case getattr obj (attname fld) of
        Inl e \<Rightarrow> Inl e
      | Inr v \<Rightarrow>
          (case prep_values connection flds obj of
             Inl e \<Rightarrow> Inl e
           | Inr sub \<Rightarrow> Inr (Param (get_db_prep_save connection fld v) # sub)))"

text \<open>The loop \<open>for o in objs\<close> that cuts the update data into batches.\<close>

fun construct ::
  "'v connection \<Rightarrow> Field \<Rightarrow> Field list \<Rightarrow> int \<Rightarrow> ('m, 'v) inst list \<Rightarrow>
   'v param list \<Rightarrow> int \<Rightarrow> (int \<times> 'v param list) list \<Rightarrow>
   error + 'v param list \<times> int \<times> (int \<times> 'v param list) list" where
  "construct connection pk_field flds batch_size [] data counter batches =
     Inr (data, counter, batches)"
| "construct connection pk_field flds batch_size (obj # objs) data counter batches =
     (case prep_values connection (pk_field # flds) obj of
        Inl e \<Rightarrow> Inl e
      | Inr sub \<Rightarrow>
          (let counter' = counter + 1; data' = data @ sub in
           if counter' \<ge> batch_size
           then construct connection pk_field flds batch_size objs [] 0
                  (batches @ [(counter', data')])
           else construct connection pk_field flds batch_size objs data' counter' batches))"

text \<open>
  The loop \<open>for counter, data in batches\<close>. The second component of the result tells
  whether the loop left the function through \<open>return model.objects.bulk_update(...)\<close>.
\<close>

fun flush ::
  "string \<Rightarrow> string \<Rightarrow> Field \<Rightarrow> Field list \<Rightarrow> 'v connection \<Rightarrow>
   ('m, 'v) inst list \<Rightarrow> string list \<Rightarrow> int \<Rightarrow>
   (int \<times> 'v param list) list \<Rightarrow> string \<Rightarrow> int \<Rightarrow> ('m, 'v) db_op list \<times> bool" where
  "flush vend tablename pk_field flds connection objs fieldnames batch_size
     [] sql last_counter = ([], False)"
| "flush vend tablename pk_field flds connection objs fieldnames batch_size
     ((counter, data) # batches) sql last_counter =
     (if counter \<noteq> last_counter then
        (let sql' = QUERY_get vend tablename (column pk_field) flds counter connection in
         if sql' = [] then
           ([Generate counter, Bulk_update objs fieldnames (Some batch_size)], True)
         else
           (let data' = (if vend = ''mysql''
                         then map Num [0..int (length flds)] @ data else data);
                (ops, returned) =
                   flush vend tablename pk_field flds connection objs fieldnames batch_size
                     batches sql' last_counter
            in (Generate counter # Execute sql' data' # ops, returned)))
      else
        (let data' = (if vend = ''mysql''
                      then map Num [0..int (length flds)] @ data else data);
             (ops, returned) =
                flush vend tablename pk_field flds connection objs fieldnames batch_size
                  batches sql last_counter
         in (Execute sql data' # ops, returned)))"

definition fast_update ::
  "meta \<Rightarrow> 'v connection \<Rightarrow> (nat \<rightharpoonup> string) \<Rightarrow> ('m, 'v) inst list \<Rightarrow> string list \<Rightarrow> int \<Rightarrow>
   (error + ('m, 'v) db_op list) \<times> (nat \<rightharpoonup> string)" where
  "fast_update m connection CONNECTION_HASHES objs fieldnames batch_size =
     (case split_fieldnames m fieldnames [] [] of
        Inl e \<Rightarrow> (Inl e, CONNECTION_HASHES)
      | Inr (non_local_fieldnames, local_fieldnames) \<Rightarrow>
          if non_local_fieldnames \<noteq> [] \<and> length local_fieldnames < 2 then
            (Inr [Bulk_update objs fieldnames (Some batch_size)], CONNECTION_HASHES)
          else
            (let rest = (if non_local_fieldnames \<noteq> []
                         then [Bulk_update objs non_local_fieldnames (Some batch_size)]
                         else [])
             in if local_fieldnames \<noteq> [] then
                  (case meta_pk m of
                     None \<Rightarrow>
                       (Inr [Bulk_update objs fieldnames (Some batch_size)], CONNECTION_HASHES)
                   | Some pk_field \<Rightarrow>
                       (case get_fields m local_fieldnames of
                          Inl e \<Rightarrow> (Inl e, CONNECTION_HASHES)
                        | Inr flds \<Rightarrow>
                            (case construct connection pk_field flds batch_size objs [] 0 [] of
                               Inl e \<Rightarrow> (Inl e, CONNECTION_HASHES)
                             | Inr (data, counter, batches) \<Rightarrow>
                                 (let batches' = (if data \<noteq> []
                                                  then batches @ [(counter, data)]
                                                  else batches);
                                      (vend, probes, hashes) =
                                        (if vendor connection = ''mysql''
                                         then u_adjust_mysql connection CONNECTION_HASHES
                                         else (vendor connection, [], CONNECTION_HASHES));
                                      (ops, returned) =
                                        flush vend (db_table m) pk_field flds connection
                                          objs fieldnames batch_size batches' [] (- 1)
                                  in if returned then (Inr (probes @ ops), hashes)
                                     else (Inr (probes @ ops @ rest), hashes)))))
                else (Inr rest, CONNECTION_HASHES)))"

section \<open>Propagation: \<open>update_dependent\<close> and \<open>bulk_updater\<close>\<close>

subsection \<open>Querysets, the database and what lies outside the repository\<close>

text \<open>
  A queryset is the expression the code builds with the ORM; the database evaluates it
  when the code iterates over it. \<open>Objects_filter model key arg\<close> is
  \<open>model.objects.filter(**{key: arg})\<close> with a record or a queryset as argument,
  \<open>Objects_filter_pks model pks\<close> is \<open>model.objects.filter(pk__in=pks)\<close>. The first
  argument of \<open>update_dependent\<close> is a record or a queryset.
\<close>

datatype ('m, 'v) queryset =
    Objects_none 'm
  | Objects_filter 'm string "('m, 'v) target"
  | Objects_filter_pks 'm "'v list"
  | Or_qs "('m, 'v) queryset" "('m, 'v) queryset"
  | Distinct "('m, 'v) queryset"
  | Select_related "string list" "('m, 'v) queryset"
  | Prefetch_related "string list" "('m, 'v) queryset"
and ('m, 'v) target =
    Instance "('m, 'v) inst"
  | QuerySet "('m, 'v) queryset"

text \<open>\<open>queryset.model\<close>\<close>

fun qs_model :: "('m, 'v) queryset \<Rightarrow> 'm" where
  "qs_model (Objects_none model) = model"
| "qs_model (Objects_filter model key arg) = model"
| "qs_model (Objects_filter_pks model pks) = model"
| "qs_model (Or_qs q1 q2) = qs_model q1"
| "qs_model (Distinct q) = qs_model q"
| "qs_model (Select_related names q) = qs_model q"
| "qs_model (Prefetch_related names q) = qs_model q"

definition u_get_model :: "('m, 'v) target \<Rightarrow> 'm" where
  "u_get_model instance =
     (case instance of Instance i \<Rightarrow> cls i | QuerySet q \<Rightarrow> qs_model q)"

text \<open>
  What the code takes from Python, from Django and from the settings: the comparison
  \<open>!=\<close> of two field values, the evaluation of a queryset on the database and the effect
  of one update statement or one \<open>bulk_update\<close> call on it (both may raise), the options
  of a model, the connection, and the two settings read by \<open>bulk_updater\<close>. The database
  itself is any type \<open>'db\<close>.
\<close>

record ('m, 'v, 'db) orm =
  value_ne :: "'v \<Rightarrow> 'v \<Rightarrow> bool"
  fetch :: "'db \<Rightarrow> ('m, 'v) queryset \<Rightarrow> error + ('m, 'v) inst list"
  run :: "'db \<Rightarrow> 'm \<Rightarrow> ('m, 'v) db_op \<Rightarrow> error + 'db"
  meta_of :: "'m \<Rightarrow> meta"
  default_connection :: "'v connection"
  COMPUTEDFIELDS_FASTUPDATE :: bool
  COMPUTEDFIELDS_BATCHSIZE_FAST :: "int option"

text \<open>
  The state a propagation runs on: the resolver (its \<open>use_fastupdate\<close> and \<open>_batchsize\<close>
  are set on the first run of \<open>bulk_updater\<close>), the dictionary \<open>CONNECTION_HASHES\<close> and the
  database.
\<close>

record ('m, 'v, 'db) world =
  the_resolver :: "('m, 'v) resolver"
  connection_hashes :: "nat \<rightharpoonup> string"
  database :: 'db

text \<open>
  \<open>with transaction.atomic():\<close> around a block. When the block raises, Django rolls
  the database back to where it was when the block was entered and raises again; what the
  block did to Python objects stays. When the block ends normally its changes stay. This
  holds for an outermost block (a transaction) and for a nested one (a savepoint) alike.
\<close>

definition atomic ::
  "(('m, 'v, 'db) world \<Rightarrow> (error + 'a) \<times> ('m, 'v, 'db) world) \<Rightarrow>
   ('m, 'v, 'db) world \<Rightarrow> (error + 'a) \<times> ('m, 'v, 'db) world" where
  "atomic block w =
     (case block w of
        (Inl e, w') \<Rightarrow> (Inl e, w'\<lparr>database := database w\<rparr>)
      | (Inr x, w') \<Rightarrow> (Inr x, w'))"

subsection \<open>\<open>Resolver._update\<close>\<close>

text \<open>
  The operations of one call reach the database in their order; the first that raises
  ends the call. Building a statement text and probing the dialect do not change the
  database.
\<close>

fun run_ops ::
  "('m, 'v, 'db) orm \<Rightarrow> 'm \<Rightarrow> ('m, 'v) db_op list \<Rightarrow> 'db \<Rightarrow> (error + unit) \<times> 'db" where
  "run_ops orm model [] d = (Inr (), d)"
| "run_ops orm model (Generate n # ops) d = run_ops orm model ops d"
| "run_ops orm model (Probe sql # ops) d = run_ops orm model ops d"
| "run_ops orm model (x # ops) d =
     (case run orm d model x of
        Inl e \<Rightarrow> (Inl e, d)
      | Inr d' \<Rightarrow> run_ops orm model ops d')"

text \<open>
  \<open>fast_update\<close> as it runs on the database: what it raises itself it raises before it
  touches the database; its operations are run in their order, and what one of them
  raises is raised by \<open>fast_update\<close>.
\<close>

definition fast_update_db ::
  "('m, 'v, 'db) orm \<Rightarrow> 'm \<Rightarrow> (nat \<rightharpoonup> string) \<Rightarrow> ('m, 'v) inst list \<Rightarrow> string list \<Rightarrow> int \<Rightarrow>
   'db \<Rightarrow> (error + unit) \<times> (nat \<rightharpoonup> string) \<times> 'db" where
  "fast_update_db orm model CONNECTION_HASHES objs fieldnames batch_size d =
     (case fast_update (meta_of orm model) (default_connection orm) CONNECTION_HASHES
             objs fieldnames batch_size of
        (Inl e, hashes) \<Rightarrow> (Inl e, hashes, d)
      | (Inr ops, hashes) \<Rightarrow>
          (case run_ops orm model ops d of
             (r, d') \<Rightarrow> (r, hashes, d')))"

definition u_update ::
  "('m, 'v, 'db) orm \<Rightarrow> 'm \<Rightarrow> ('m, 'v) db_write \<Rightarrow> ('m, 'v, 'db) world \<Rightarrow>
   (error + unit) \<times> ('m, 'v, 'db) world" where
  "u_update orm model wr w =
     (case wr of
        Update change flds \<Rightarrow>
          if use_fastupdate (the_resolver w) = Some True then
            (case fast_update_db orm model (connection_hashes w) change flds
                    (batchsize (the_resolver w)) (database w) of
               (r, hashes, d) \<Rightarrow> (r, w\<lparr>connection_hashes := hashes, database := d\<rparr>))
          else
            (case run orm (database w) model (Bulk_update change flds None) of
               Inl e \<Rightarrow> (Inl e, w)
             | Inr d \<Rightarrow> (Inr (), w\<lparr>database := d\<rparr>)))"

text \<open>The calls of \<open>_update\<close> that the record loop issues, one after the other.\<close>

fun update_all ::
  "('m, 'v, 'db) orm \<Rightarrow> 'm \<Rightarrow> ('m, 'v) db_write list \<Rightarrow> ('m, 'v, 'db) world \<Rightarrow>
   (error + unit) \<times> ('m, 'v, 'db) world" where
  "update_all orm model [] w = (Inr (), w)"
| "update_all orm model (wr # writes) w =
     (case u_update orm model wr w of
        (Inl e, w') \<Rightarrow> (Inl e, w')
      | (Inr _, w') \<Rightarrow> update_all orm model writes w')"

subsection \<open>\<open>Resolver._querysets_for_update\<close> and \<open>preupdate_dependent\<close>\<close>

text \<open>
  \<open>m_fields, m_paths = model_updates.setdefault(model, (set(), set()))\<close> followed by the
  two \<open>update\<close> calls, on the ordered dictionary \<open>model_updates\<close>. Sets of names are lists
  without repetitions; where the source walks a set the model walks the list.
\<close>

fun setdefault_update ::
  "'m \<Rightarrow> string list \<Rightarrow> string list \<Rightarrow> ('m \<times> string list \<times> string list) list \<Rightarrow>
   ('m \<times> string list \<times> string list) list" where
  "setdefault_update model flds paths [] = [(model, remdups flds, remdups paths)]"
| "setdefault_update model flds paths ((m, m_fields, m_paths) # model_updates) =
     (if m = model
      then (m, remdups (m_fields @ flds), remdups (m_paths @ paths)) # model_updates
      else (m, m_fields, m_paths) # setdefault_update model flds paths model_updates)"

text \<open>
  The entries of \<open>modeldata\<close> for the field names in \<open>updates\<close>: all of them when
  \<open>update_fields\<close> is \<open>None\<close> or empty, else those of the names in \<open>update_fields\<close>.
\<close>

definition updates_of ::
  "(string \<times> ('m \<times> string list \<times> string list) list) list \<Rightarrow> string list option \<Rightarrow>
   (string \<times> ('m \<times> string list \<times> string list) list) list" where
  "updates_of modeldata update_fields =
     (if \<not> truthy update_fields then modeldata
      else filter (\<lambda>(fieldname, deps). fieldname \<in> set (the update_fields)) modeldata)"

definition model_updates_of ::
  "(string \<times> ('m \<times> string list \<times> string list) list) list \<Rightarrow>
   ('m \<times> string list \<times> string list) list" where
  "model_updates_of updates =
     fold (\<lambda>(update, deps) model_updates.
             fold (\<lambda>(model, flds, paths). setdefault_update model flds paths) deps model_updates)
          updates []"

text \<open>A slot of the result: a queryset, or with \<open>pk_list\<close> the primary keys it yields.\<close>

datatype ('m, 'v) qs_or_pks = Qs "('m, 'v) queryset" | Pks "'v list"

fun final_of ::
  "('m, 'v, 'db) orm \<Rightarrow> 'db \<Rightarrow> ('m, 'v) target \<Rightarrow> bool \<Rightarrow>
   ('m \<times> string list \<times> string list) list \<Rightarrow>
   error + ('m \<times> ('m, 'v) qs_or_pks \<times> string list) list" where
  "final_of orm d instance pk_list [] = Inr []"
| "final_of orm d instance pk_list ((model, flds, paths) # model_updates) =
     (let subquery = (case instance of QuerySet q \<Rightarrow> ''__in'' | Instance i \<Rightarrow> []);
          queryset = fold (\<lambda>path q. Or_qs q (Objects_filter model (path @ subquery) instance))
                       paths (Objects_none model)
      in if pk_list then
           (case fetch orm d (Distinct queryset) of
              Inl e \<Rightarrow> Inl e
            | Inr rows \<Rightarrow>
                (case final_of orm d instance pk_list model_updates of
                   Inl e \<Rightarrow> Inl e
                 | Inr final \<Rightarrow>
                     if remdups (map pk rows) = [] then Inr final
                     else Inr ((model, Pks (remdups (map pk rows)), flds) # final)))
         else
           (case final_of orm d instance pk_list model_updates of
              Inl e \<Rightarrow> Inl e
            | Inr final \<Rightarrow> Inr ((model, Qs queryset, flds) # final)))"

definition u_querysets_for_update ::
  "('m, 'v, 'db) orm \<Rightarrow> 'db \<Rightarrow> ('m, 'v) resolver \<Rightarrow> 'm \<Rightarrow> ('m, 'v) target \<Rightarrow>
   string list option \<Rightarrow> bool \<Rightarrow> error + ('m \<times> ('m, 'v) qs_or_pks \<times> string list) list" where
  "u_querysets_for_update orm d self model instance update_fields pk_list =
     (case lookup_map self model of
        None \<Rightarrow> Inr []
      | Some modeldata \<Rightarrow>
          if modeldata = [] then Inr []
          else final_of orm d instance pk_list
                 (model_updates_of (updates_of modeldata update_fields)))"

text \<open>The keys come out as in \<open>old\<close>: per model the primary keys and the field names.\<close>

fun pks_of ::
  "('m \<times> ('m, 'v) qs_or_pks \<times> string list) list \<Rightarrow> ('m \<times> 'v list \<times> string list) list" where
  "pks_of [] = []"
| "pks_of ((model, Pks pks, flds) # final) = (model, pks, flds) # pks_of final"
| "pks_of ((model, Qs q, flds) # final) = pks_of final"

definition preupdate_dependent ::
  "('m, 'v, 'db) orm \<Rightarrow> ('m, 'v) target \<Rightarrow> 'm option \<Rightarrow> string list option \<Rightarrow>
   ('m, 'v, 'db) world \<Rightarrow> error + ('m \<times> 'v list \<times> string list) list" where
  "preupdate_dependent orm instance model update_fields w =
     (case u_querysets_for_update orm (database w) (the_resolver w)
             (case model of Some m \<Rightarrow> m | None \<Rightarrow> u_get_model instance)
             instance update_fields True of
        Inl e \<Rightarrow> Inl e
      | Inr final \<Rightarrow> Inr (pks_of final))"

subsection \<open>\<open>Resolver.bulk_updater\<close>\<close>

text \<open>The loop that gathers the \<open>select_related\<close> and \<open>prefetch_related\<close> hints.\<close>

fun hints ::
  "('m, 'v) resolver \<Rightarrow> 'm \<Rightarrow> string list \<Rightarrow> string list \<Rightarrow> string list \<Rightarrow>
   error + string list \<times> string list" where
  "hints self model [] select prefetch = Inr (select, prefetch)"
| "hints self model (field # flds) select prefetch =
     (case computed_models self model of
        None \<Rightarrow> Inl KeyError
      | Some cfs \<Rightarrow>
          (case cfs field of
             None \<Rightarrow> Inl KeyError
           | Some cf \<Rightarrow>
               hints self model flds (remdups (select @ select_related cf))
                 (prefetch @ prefetch_related cf)))"

text \<open>
  The first run sets \<open>use_fastupdate\<close> from the setting and \<open>check_support()\<close>, and with it
  the batch size.
\<close>

definition init_fastupdate ::
  "('m, 'v, 'db) orm \<Rightarrow> ('m, 'v, 'db) world \<Rightarrow> ('m, 'v, 'db) world" where
  "init_fastupdate orm w =
     (let self = the_resolver w in
      if use_fastupdate self = None then
        (if COMPUTEDFIELDS_FASTUPDATE orm then
           (case (check_support (default_connection orm) (connection_hashes w)
                   :: bool \<times> ('m, 'v) db_op list \<times> (nat \<rightharpoonup> string)) of
              (supported, probes, hashes) \<Rightarrow>
                w\<lparr>the_resolver := self\<lparr>use_fastupdate := Some supported,
                       batchsize := (if supported
                                     then (case COMPUTEDFIELDS_BATCHSIZE_FAST orm of
                                             None \<Rightarrow> batchsize self * 10
                                           | Some b \<Rightarrow> b)
                                     else batchsize self)\<rparr>,
                   connection_hashes := hashes\<rparr>)
         else w\<lparr>the_resolver := self\<lparr>use_fastupdate := Some False\<rparr>\<rparr>)
      else w)"

text \<open>
  \<open>bulk_updater\<close>, with the \<open>update_dependent\<close> it calls as a parameter. The set
  \<open>update_fields\<close> is extended in place, which the caller sees: the result carries it
  next to the returned primary keys. The queryset is evaluated once, before anything is
  written, when the loop, the test \<open>if ... and queryset\<close> or the returned keys need its
  records. The compute functions read the records as fetched.
\<close>

definition bulk_updater_with ::
  "(('m, 'v) target \<Rightarrow> 'm option \<Rightarrow> string list option \<Rightarrow>
      ('m \<times> 'v list \<times> string list) list option \<Rightarrow> bool \<Rightarrow>
      ('m, 'v, 'db) world \<Rightarrow> (error + unit) \<times> ('m, 'v, 'db) world) \<Rightarrow>
   ('m, 'v, 'db) orm \<Rightarrow> ('m, 'v) queryset \<Rightarrow> string list option \<Rightarrow> bool \<Rightarrow> bool \<Rightarrow>
   ('m, 'v, 'db) world \<Rightarrow>
   (error + 'v list option \<times> string list option) \<times> ('m, 'v, 'db) world" where
  "bulk_updater_with update_dependent' orm queryset0 update_fields return_pks local_only w =
     (let queryset1 = Distinct queryset0;
          model = qs_model queryset1;
          mro = get_local_mro (the_resolver w) model update_fields;
          flds = remdups mro;
          update_fields' = (if truthy update_fields
                            then Some (remdups (the update_fields @ flds))
                            else update_fields)
      in case hints (the_resolver w) model flds [] [] of
           Inl e \<Rightarrow> (Inl e, w)
         | Inr (select, prefetch) \<Rightarrow>
             (let queryset2 = (if select \<noteq> [] then Select_related select queryset1
                               else queryset1);
                  queryset = (if prefetch \<noteq> [] then Prefetch_related prefetch queryset2
                              else queryset2);
                  w1 = init_fastupdate orm w
              in if flds = [] \<and> local_only \<and> \<not> return_pks then
                   (Inr (None, update_fields'), w1)
                 else
                   (case fetch orm (database w1) queryset of
                      Inl e \<Rightarrow> (Inl e, w1)
                    | Inr rows \<Rightarrow>
                        (case update_records (value_ne orm) (the_resolver w1) model mro rows of
                           (walked, writes) \<Rightarrow>
                             (case update_all orm model writes w1 of
                                (Inl e, w2) \<Rightarrow> (Inl e, w2)
                              | (Inr _, w2) \<Rightarrow>
                                  (case walked of
                                     Inl e \<Rightarrow> (Inl e, w2)
                                   | Inr rows' \<Rightarrow>
                                       (case (if \<not> local_only \<and> rows' \<noteq> []
                                              then update_dependent' (QuerySet queryset)
                                                     (Some model) (Some flds) None False w2
                                              else (Inr (), w2)) of
                                          (Inl e, w3) \<Rightarrow> (Inl e, w3)
                                        | (Inr _, w3) \<Rightarrow>
                                            (Inr (if return_pks
                                                  then Some (remdups (map pk rows'))
                                                  else None, update_fields'), w3))))))))"

subsection \<open>\<open>Resolver.update_dependent\<close>\<close>

text \<open>
  The entry node's own computed fields, lines 575 to 580: no transaction is opened
  around this call of \<open>bulk_updater\<close>. The result is \<open>_update_fields\<close> as the call leaves
  it.
\<close>

definition update_entry ::
  "(('m, 'v) queryset \<Rightarrow> string list option \<Rightarrow> bool \<Rightarrow> bool \<Rightarrow>
      ('m, 'v, 'db) world \<Rightarrow>
      (error + 'v list option \<times> string list option) \<times> ('m, 'v, 'db) world) \<Rightarrow>
   ('m, 'v) target \<Rightarrow> 'm \<Rightarrow> string list option \<Rightarrow> bool \<Rightarrow>
   ('m, 'v, 'db) world \<Rightarrow> (error + string list option) \<times> ('m, 'v, 'db) world" where
  "update_entry bulk_updater' instance model update_fields update_local w =
     (if update_local \<and> has_computedfields (the_resolver w) model then
        (let queryset = (case instance of
                           QuerySet q \<Rightarrow> q
                         | Instance i \<Rightarrow> Objects_filter_pks model [pk i])
         in case bulk_updater' queryset update_fields False True w of
              (Inl e, w') \<Rightarrow> (Inl e, w')
            | (Inr (pks, update_fields'), w') \<Rightarrow> (Inr update_fields', w'))
      else (Inr update_fields, w))"

text \<open>The loop \<open>for queryset, fields in updates\<close> with the dictionary \<open>pks_updated\<close>.\<close>

fun updates_loop ::
  "(('m, 'v) queryset \<Rightarrow> string list option \<Rightarrow> bool \<Rightarrow> bool \<Rightarrow>
      ('m, 'v, 'db) world \<Rightarrow>
      (error + 'v list option \<times> string list option) \<times> ('m, 'v, 'db) world) \<Rightarrow>
   ('m \<times> ('m, 'v) qs_or_pks \<times> string list) list \<Rightarrow> ('m \<rightharpoonup> 'v list) \<Rightarrow>
   ('m, 'v, 'db) world \<Rightarrow> (error + ('m \<rightharpoonup> 'v list)) \<times> ('m, 'v, 'db) world" where
  "updates_loop bulk_updater' [] pks_updated w = (Inr pks_updated, w)"
| "updates_loop bulk_updater' ((model, Pks pks, flds) # updates) pks_updated w =
     (Inl (AttributeError ''distinct''), w)"
| "updates_loop bulk_updater' ((model, Qs queryset, flds) # updates) pks_updated w =
     (case bulk_updater' queryset (Some flds) True False w of
        (Inl e, w') \<Rightarrow> (Inl e, w')
      | (Inr (u_pks, flds'), w') \<Rightarrow>
          updates_loop bulk_updater' updates
            (case u_pks of
               None \<Rightarrow> pks_updated
             | Some ks \<Rightarrow> if ks \<noteq> [] then pks_updated(qs_model queryset \<mapsto> ks) else pks_updated)
            w')"

text \<open>The loop \<open>for model2, data in old.items()\<close>.\<close>

fun old_loop ::
  "(('m, 'v) queryset \<Rightarrow> string list option \<Rightarrow> bool \<Rightarrow> bool \<Rightarrow>
      ('m, 'v, 'db) world \<Rightarrow>
      (error + 'v list option \<times> string list option) \<times> ('m, 'v, 'db) world) \<Rightarrow>
   ('m \<times> 'v list \<times> string list) list \<Rightarrow> ('m \<rightharpoonup> 'v list) \<Rightarrow>
   ('m, 'v, 'db) world \<Rightarrow> (error + unit) \<times> ('m, 'v, 'db) world" where
  "old_loop bulk_updater' [] pks_updated w = (Inr (), w)"
| "old_loop bulk_updater' ((model2, pks, flds) # old) pks_updated w =
     (let done = (case pks_updated model2 of None \<Rightarrow> [] | Some ks \<Rightarrow> ks);
          queryset = Objects_filter_pks model2 (filter (\<lambda>k. k \<notin> set done) pks)
      in case bulk_updater' queryset (Some flds) False False w of
           (Inl e, w') \<Rightarrow> (Inl e, w')
         | (Inr _, w') \<Rightarrow> old_loop bulk_updater' old pks_updated w')"

text \<open>The block under \<open>with transaction.atomic():\<close>, lines 585 to 594.\<close>

definition update_dependents ::
  "(('m, 'v) queryset \<Rightarrow> string list option \<Rightarrow> bool \<Rightarrow> bool \<Rightarrow>
      ('m, 'v, 'db) world \<Rightarrow>
      (error + 'v list option \<times> string list option) \<times> ('m, 'v, 'db) world) \<Rightarrow>
   ('m \<times> ('m, 'v) qs_or_pks \<times> string list) list \<Rightarrow>
   ('m \<times> 'v list \<times> string list) list option \<Rightarrow>
   ('m, 'v, 'db) world \<Rightarrow> (error + unit) \<times> ('m, 'v, 'db) world" where
  "update_dependents bulk_updater' updates old w =
     (case updates_loop bulk_updater' updates Map.empty w of
        (Inl e, w') \<Rightarrow> (Inl e, w')
      | (Inr pks_updated, w') \<Rightarrow>
          (case old of
             None \<Rightarrow> (Inr (), w')
           | Some entries \<Rightarrow> old_loop bulk_updater' entries pks_updated w'))"

text \<open>\<open>update_dependent\<close>, with the \<open>bulk_updater\<close> it calls as a parameter.\<close>

definition update_dependent_with ::
  "(('m, 'v) queryset \<Rightarrow> string list option \<Rightarrow> bool \<Rightarrow> bool \<Rightarrow>
      ('m, 'v, 'db) world \<Rightarrow>
      (error + 'v list option \<times> string list option) \<times> ('m, 'v, 'db) world) \<Rightarrow>
   ('m, 'v, 'db) orm \<Rightarrow> ('m, 'v) target \<Rightarrow> 'm option \<Rightarrow> string list option \<Rightarrow>
   ('m \<times> 'v list \<times> string list) list option \<Rightarrow> bool \<Rightarrow>
   ('m, 'v, 'db) world \<Rightarrow> (error + unit) \<times> ('m, 'v, 'db) world" where
  "update_dependent_with bulk_updater' orm instance model update_fields old update_local w =
     (let u_model = (case model of Some m \<Rightarrow> m | None \<Rightarrow> u_get_model instance);
          u_update_fields = map_option remdups update_fields
      in case update_entry bulk_updater' instance u_model u_update_fields update_local w of
           (Inl e, w1) \<Rightarrow> (Inl e, w1)
         | (Inr fields_after, w1) \<Rightarrow>
             (case u_querysets_for_update orm (database w1) (the_resolver w1) u_model instance
                     fields_after False of
                Inl e \<Rightarrow> (Inl e, w1)
              | Inr updates \<Rightarrow>
                  if updates \<noteq> []
                  then atomic (update_dependents bulk_updater' updates old) w1
                  else (Inr (), w1)))"

text \<open>
  The two methods call each other. The first argument bounds the depth of the calls:
  Python raises \<open>RecursionError\<close> when its stack is exhausted.
\<close>

fun update_dependent ::
  "nat \<Rightarrow> ('m, 'v, 'db) orm \<Rightarrow> ('m, 'v) target \<Rightarrow> 'm option \<Rightarrow> string list option \<Rightarrow>
   ('m \<times> 'v list \<times> string list) list option \<Rightarrow> bool \<Rightarrow>
   ('m, 'v, 'db) world \<Rightarrow> (error + unit) \<times> ('m, 'v, 'db) world"
and bulk_updater ::
  "nat \<Rightarrow> ('m, 'v, 'db) orm \<Rightarrow> ('m, 'v) queryset \<Rightarrow> string list option \<Rightarrow> bool \<Rightarrow> bool \<Rightarrow>
   ('m, 'v, 'db) world \<Rightarrow>
   (error + 'v list option \<times> string list option) \<times> ('m, 'v, 'db) world" where
  "update_dependent 0 orm instance model update_fields old update_local w =
     (Inl RecursionError, w)"
| "update_dependent (Suc depth) orm instance model update_fields old update_local w =
     update_dependent_with (bulk_updater depth orm) orm instance model update_fields old
       update_local w"
| "bulk_updater 0 orm queryset update_fields return_pks local_only w =
     (Inl RecursionError, w)"
| "bulk_updater (Suc depth) orm queryset update_fields return_pks local_only w =
     bulk_updater_with (update_dependent depth orm) orm queryset update_fields return_pks
       local_only w"

section \<open>Notions used to state the properties\<close>

text \<open>The record after a list of events: only the assignments act on it.\<close>

fun replay :: "'v event list \<Rightarrow> ('m, 'v) inst \<Rightarrow> ('m, 'v) inst" where
  "replay [] i = i"
| "replay (Call f # es) i = replay es i"
| "replay (SetAttr f v # es) i = replay es (setattr i f v)"

fun assigned_names :: "'v event list \<Rightarrow> string list" where
  "assigned_names [] = []"
| "assigned_names (Call f # es) = assigned_names es"
| "assigned_names (SetAttr f v # es) = f # assigned_names es"

text \<open>
  An event list recomputes: it is a sequence of pairs, a call of the compute function of
  a field followed by the assignment, to that field, of the value the function has on
  the record as it stands at that moment.
\<close>

fun recomputes ::
  "('m, 'v) resolver \<Rightarrow> 'm \<Rightarrow> 'v event list \<Rightarrow> ('m, 'v) inst \<Rightarrow> bool" where
  "recomputes self model [] i \<longleftrightarrow> True"
| "recomputes self model (Call f # SetAttr g v # es) i \<longleftrightarrow>
     f = g \<and> u_compute self i model f = Inr v \<and> recomputes self model es (setattr i f v)"
| "recomputes self model es i \<longleftrightarrow> False"

text \<open>
  Every assignment of an event list writes the value the record already holds at that
  moment.
\<close>

fun noops :: "'v event list \<Rightarrow> ('m, 'v) inst \<Rightarrow> bool" where
  "noops [] i \<longleftrightarrow> True"
| "noops (Call f # es) i \<longleftrightarrow> noops es i"
| "noops (SetAttr f v # es) i \<longleftrightarrow> attrs i f = Some v \<and> noops es (setattr i f v)"

text \<open>
  The record with the fields of an MRO recomputed one after the other, each value put
  in place before the next field is computed.
\<close>

fun recomputed ::
  "('m, 'v) resolver \<Rightarrow> 'm \<Rightarrow> string list \<Rightarrow> ('m, 'v) inst \<Rightarrow> ('m, 'v) inst" where
  "recomputed self model [] i = i"
| "recomputed self model (f # mro) i =
     (case u_compute self i model f of
        Inl e \<Rightarrow> i
      | Inr v \<Rightarrow> recomputed self model mro (setattr i f v))"

text \<open>
  A record differs: for at least one field of the MRO, the value its compute function
  yields on the record compares unequal, by the \<open>!=\<close> of the values, to the value the
  record holds for that field.
\<close>

definition differs ::
  "('v \<Rightarrow> 'v \<Rightarrow> bool) \<Rightarrow> ('m, 'v) resolver \<Rightarrow> 'm \<Rightarrow> string list \<Rightarrow> ('m, 'v) inst \<Rightarrow> bool" where
  "differs ne self model mro i \<longleftrightarrow>
     (\<exists>f \<in> set mro.
        case u_compute self i model f of
          Inl e \<Rightarrow> False
        | Inr v \<Rightarrow> (case attrs i f of None \<Rightarrow> False | Some cur \<Rightarrow> ne v cur))"

text \<open>
  The MRO is an evaluation order for the compute functions: the function of a field
  reads neither that field nor a field that comes later in the MRO, so its value does not
  depend on what those fields hold.
\<close>

fun evaluation_order :: "('m, 'v) resolver \<Rightarrow> 'm \<Rightarrow> string list \<Rightarrow> bool" where
  "evaluation_order self model [] \<longleftrightarrow> True"
| "evaluation_order self model (f # mro) \<longleftrightarrow>
     (\<forall>g \<in> set (f # mro). \<forall>i v.
        u_compute self (setattr i g v) model f = u_compute self i model f) \<and>
     evaluation_order self model mro"

text \<open>
  A record is settled for an MRO: the compute function of every field of the MRO yields
  the value the record holds for that field.
\<close>

definition settled ::
  "('m, 'v) resolver \<Rightarrow> 'm \<Rightarrow> string list \<Rightarrow> ('m, 'v) inst \<Rightarrow> bool" where
  "settled self model mro i \<longleftrightarrow>
     (\<forall>f \<in> set mro. \<exists>v. u_compute self i model f = Inr v \<and> attrs i f = Some v)"

fun records_of :: "('m, 'v) db_write \<Rightarrow> ('m, 'v) inst list" where
  "records_of (Update change flds) = change"

text \<open>
  A requested field name is known to the model, and it names a field local to the model.
\<close>

definition known :: "meta \<Rightarrow> string \<Rightarrow> bool" where
  "known m f \<longleftrightarrow> get_field m f \<noteq> None"

definition is_local :: "meta \<Rightarrow> string \<Rightarrow> bool" where
  "is_local m f \<longleftrightarrow> (case get_field m f of None \<Rightarrow> False | Some fld \<Rightarrow> fld \<in> set (local_fields m))"

text \<open>
  The batch cardinalities for which a statement text is built, and the texts of the
  executed statements, in the order of the operations.
\<close>

fun generated :: "('m, 'v) db_op list \<Rightarrow> int list" where
  "generated [] = []"
| "generated (Generate n # ops) = n # generated ops"
| "generated (Probe sql # ops) = generated ops"
| "generated (Execute sql data # ops) = generated ops"
| "generated (Bulk_update objs fieldnames batch_size # ops) = generated ops"

text \<open>The calls of \<open>bulk_update\<close>, each with the primary keys of its records.\<close>

fun bulk_updates :: "('m, 'v) db_op list \<Rightarrow> ('v list \<times> string list \<times> int option) list" where
  "bulk_updates [] = []"
| "bulk_updates (Generate n # ops) = bulk_updates ops"
| "bulk_updates (Probe sql # ops) = bulk_updates ops"
| "bulk_updates (Execute sql data # ops) = bulk_updates ops"
| "bulk_updates (Bulk_update objs fieldnames batch_size # ops) =
     (map pk objs, fieldnames, batch_size) # bulk_updates ops"

fun statements :: "('m, 'v) db_op list \<Rightarrow> string list" where
  "statements [] = []"
| "statements (Generate n # ops) = statements ops"
| "statements (Probe sql # ops) = statements ops"
| "statements (Execute sql data # ops) = sql # statements ops"
| "statements (Bulk_update objs fieldnames batch_size # ops) = statements ops"

text \<open>
  The queryset \<open>bulk_updater\<close> iterates over: the given queryset made distinct, with the
  \<open>select_related\<close> and \<open>prefetch_related\<close> hints of the fields to update.
\<close>

definition evaluated_queryset ::
  "('m, 'v) resolver \<Rightarrow> ('m, 'v) queryset \<Rightarrow> string list \<Rightarrow> ('m, 'v) queryset" where
  "evaluated_queryset self queryset0 flds =
     (case hints self (qs_model queryset0) flds [] [] of
        Inl e \<Rightarrow> Distinct queryset0
      | Inr (select, prefetch) \<Rightarrow>
          (let q = (if select \<noteq> [] then Select_related select (Distinct queryset0)
                    else Distinct queryset0)
           in if prefetch \<noteq> [] then Prefetch_related prefetch q else q))"

text \<open>
  What the database becomes when batches of records are written one after the other:
  each batch by one call of \<open>bulk_update\<close> with the records and the field names or, when
  \<open>use_fastupdate\<close> is on, by the operations \<open>fast_update\<close> issues for the batch. The first
  operation that raises ends the writing.
\<close>

fun written ::
  "('m, 'v, 'db) orm \<Rightarrow> ('m, 'v) resolver \<Rightarrow> 'm \<Rightarrow> string list \<Rightarrow> ('m, 'v) inst list list \<Rightarrow>
   (nat \<rightharpoonup> string) \<Rightarrow> 'db \<Rightarrow> error + (nat \<rightharpoonup> string) \<times> 'db" where
  "written orm self model flds [] hashes d = Inr (hashes, d)"
| "written orm self model flds (batch # batches) hashes d =
     (if use_fastupdate self = Some True then
        (case fast_update (meta_of orm model) (default_connection orm) hashes batch flds
                (batchsize self) of
           (Inl e, hashes') \<Rightarrow> Inl e
         | (Inr ops, hashes') \<Rightarrow>
             (case run_ops orm model ops d of
                (Inl e, d') \<Rightarrow> Inl e
              | (Inr u, d') \<Rightarrow> written orm self model flds batches hashes' d'))
      else
        (case run orm d model (Bulk_update batch flds None) of
           Inl e \<Rightarrow> Inl e
         | Inr d' \<Rightarrow> written orm self model flds batches hashes d'))"

text \<open>
  The state in which \<open>update_dependent\<close> leaves the update of the entry node's own
  computed fields (lines 575 to 580), before it turns to the dependent records.
\<close>

definition entry_world ::
  "nat \<Rightarrow> ('m, 'v, 'db) orm \<Rightarrow> ('m, 'v) target \<Rightarrow> 'm option \<Rightarrow> string list option \<Rightarrow> bool \<Rightarrow>
   ('m, 'v, 'db) world \<Rightarrow> ('m, 'v, 'db) world" where
  "entry_world n orm instance model update_fields update_local w =
     (case n of
        0 \<Rightarrow> w
      | Suc depth \<Rightarrow>
          snd (update_entry (bulk_updater depth orm) instance
                 (case model of Some m \<Rightarrow> m | None \<Rightarrow> u_get_model instance)
                 (map_option remdups update_fields) update_local w))"

section \<open>A small configuration for concrete evaluations\<close>

text \<open>
  One model \<open>Item\<close> with the source fields \<open>a\<close> and \<open>b\<close> and three computed fields:
  \<open>c1 = a + 1\<close>, \<open>c2 = 2 * c1\<close> and \<open>c3 = c2 + b\<close>. The local MRO is \<open>c1, c2, c3\<close>; the
  masks say which positions depend on a field (a computed field counts as depending on
  itself).
\<close>

definition demo_entry :: mro_entry where
  "demo_entry = \<lparr>base = [''c1'', ''c2'', ''c3''],
     mro_fields = [''a'' \<mapsto> 7, ''b'' \<mapsto> 4, ''c1'' \<mapsto> 7, ''c2'' \<mapsto> 6, ''c3'' \<mapsto> 4]\<rparr>"

definition demo_fields :: "string \<rightharpoonup> (string, int) computed" where
  "demo_fields =
     [''c1'' \<mapsto> \<lparr>func = (\<lambda>i. case getattr i ''a'' of Inl e \<Rightarrow> Inl e | Inr a \<Rightarrow> Inr (a + 1)),
                  select_related = [], prefetch_related = []\<rparr>,
      ''c2'' \<mapsto> \<lparr>func = (\<lambda>i. case getattr i ''c1'' of Inl e \<Rightarrow> Inl e | Inr c \<Rightarrow> Inr (2 * c)),
                  select_related = [], prefetch_related = []\<rparr>,
      ''c3'' \<mapsto> \<lparr>func = (\<lambda>i. case getattr i ''c2'' of
                                Inl e \<Rightarrow> Inl e
                              | Inr c \<Rightarrow> (case getattr i ''b'' of
                                           Inl e \<Rightarrow> Inl e
                                         | Inr b \<Rightarrow> Inr (c + b))),
                  select_related = [], prefetch_related = []\<rparr>]"

definition demo_resolver :: "(string, int) resolver" where
  "demo_resolver = \<lparr>computed_models = [''Item'' \<mapsto> demo_fields],
     lookup_map = Map.empty, local_mro = [''Item'' \<mapsto> demo_entry], batchsize = 2, use_fastupdate = Some False\<rparr>"

definition demo_item :: "int \<Rightarrow> int \<Rightarrow> int \<Rightarrow> int \<Rightarrow> int \<Rightarrow> int \<Rightarrow> (string, int) inst" where
  "demo_item k a b c1 c2 c3 = \<lparr>cls = ''Item'', pk = k,
     attrs = [''a'' \<mapsto> a, ''b'' \<mapsto> b, ''c1'' \<mapsto> c1, ''c2'' \<mapsto> c2, ''c3'' \<mapsto> c3]\<rparr>"

text \<open>
  The table of \<open>Item\<close>: all its fields are local but \<open>note\<close>, which lives in the table of a
  parent model. The connection is live, of the given vendor.
\<close>

definition demo_field :: "string \<Rightarrow> Field" where
  "demo_field n = \<lparr>column = n, attname = n\<rparr>"

definition demo_meta :: meta where
  "demo_meta = \<lparr>get_field = [''id'' \<mapsto> demo_field ''id'', ''a'' \<mapsto> demo_field ''a'',
       ''b'' \<mapsto> demo_field ''b'', ''c1'' \<mapsto> demo_field ''c1'', ''c2'' \<mapsto> demo_field ''c2'',
       ''c3'' \<mapsto> demo_field ''c3'', ''note'' \<mapsto> demo_field ''note''],
     local_fields = [demo_field ''id'', demo_field ''a'', demo_field ''b'', demo_field ''c1'',
       demo_field ''c2'', demo_field ''c3''],
     db_table = ''item'', meta_pk = Some (demo_field ''id'')\<rparr>"

definition demo_connection :: "string \<Rightarrow> int connection" where
  "demo_connection v = \<lparr>vendor = v, handle = 7, is_open = True,
     sqlite_version_info = (3, 38, 0), get_db_prep_save = (\<lambda>f x. x),
     cast_col = (\<lambda>t f. dq t @ ''.'' @ dq (column f)),
     accepts_values = True, accepts_row = False\<rparr>"

definition demo_row :: "int \<Rightarrow> int \<Rightarrow> int \<Rightarrow> (string, int) inst" where
  "demo_row k x y = \<lparr>cls = ''Item'', pk = k, attrs = [''id'' \<mapsto> k, ''c1'' \<mapsto> x, ''c2'' \<mapsto> y]\<rparr>"

text \<open>
  A second model \<open>Tag\<close> hangs on \<open>Item\<close> through its foreign key \<open>item\<close>; its computed field
  \<open>label = title + 1\<close> is to be updated when \<open>c3\<close> of its item changes, and its compute
  function raises for a negative title. The stand-in for the
  database is the list of all rows. A queryset filtered by a relation path selects the rows
  whose attribute of that name holds the primary key of the given record (or of a record
  of the given queryset); \<open>bulk_update\<close> copies the named fields of the given records into
  the rows of the same model and primary key. The stand-in knows no SQL.
\<close>

definition demo_tag_fields :: "string \<rightharpoonup> (string, int) computed" where
  "demo_tag_fields =
     [''label'' \<mapsto> \<lparr>func = (\<lambda>i. case getattr i ''title'' of
                                   Inl e \<Rightarrow> Inl e
                                 | Inr t \<Rightarrow> if t < 0 then Inl (Raised ''negative title'')
                                           else Inr (t + 1)),
                     select_related = [], prefetch_related = []\<rparr>]"

definition demo_propagation :: "(string, int) resolver" where
  "demo_propagation = \<lparr>
     computed_models = [''Item'' \<mapsto> demo_fields, ''Tag'' \<mapsto> demo_tag_fields],
     lookup_map = [''Item'' \<mapsto> [(''c3'', [(''Tag'', [''label''], [''item''])])]],
     local_mro = [''Item'' \<mapsto> demo_entry,
                  ''Tag'' \<mapsto> \<lparr>base = [''label''],
                               mro_fields = [''title'' \<mapsto> 1, ''item'' \<mapsto> 1, ''label'' \<mapsto> 1]\<rparr>],
     batchsize = 1, use_fastupdate = None\<rparr>"

fun demo_eval ::
  "(string, 'v) inst list \<Rightarrow> (string, 'v) queryset \<Rightarrow> (string, 'v) inst list" where
  "demo_eval d (Objects_none model) = []"
| "demo_eval d (Objects_filter model key (Instance i)) =
     filter (\<lambda>r. cls r = model \<and> attrs r key = Some (pk i)) d"
| "demo_eval d (Objects_filter model key (QuerySet q)) =
     filter (\<lambda>r. cls r = model \<and>
                 (case attrs r (take (length key - 4) key) of
                    None \<Rightarrow> False
                  | Some k \<Rightarrow> k \<in> pk ` set (demo_eval d q))) d"
| "demo_eval d (Objects_filter_pks model pks) =
     filter (\<lambda>r. cls r = model \<and> pk r \<in> set pks) d"
| "demo_eval d (Or_qs q1 q2) =
     demo_eval d q1 @ filter (\<lambda>r. pk r \<notin> pk ` set (demo_eval d q1)) (demo_eval d q2)"
| "demo_eval d (Distinct q) = demo_eval d q"
| "demo_eval d (Select_related names q) = demo_eval d q"
| "demo_eval d (Prefetch_related names q) = demo_eval d q"

fun demo_run ::
  "(string, 'v) inst list \<Rightarrow> string \<Rightarrow> (string, 'v) db_op \<Rightarrow> error + (string, 'v) inst list" where
  "demo_run d model (Bulk_update objs fieldnames batch_size) =
     Inr (map (\<lambda>r. case find (\<lambda>x. cls x = cls r \<and> pk x = pk r) objs of
                      None \<Rightarrow> r
                    | Some x \<Rightarrow> r\<lparr>attrs := (\<lambda>f. if f \<in> set fieldnames then attrs x f
                                                else attrs r f)\<rparr>) d)"
| "demo_run d model (Execute sql data) = Inl (DatabaseError sql)"
| "demo_run d model (Generate n) = Inr d"
| "demo_run d model (Probe sql) = Inr d"

definition demo_orm :: "(string, int, (string, int) inst list) orm" where
  "demo_orm = \<lparr>value_ne = (\<lambda>x y. x \<noteq> y),
     fetch = (\<lambda>d q. Inr (demo_eval d q)), run = demo_run,
     meta_of = (\<lambda>model. demo_meta), default_connection = demo_connection ''sqlite'',
     COMPUTEDFIELDS_FASTUPDATE = False, COMPUTEDFIELDS_BATCHSIZE_FAST = None\<rparr>"

definition demo_tag :: "int \<Rightarrow> int \<Rightarrow> int \<Rightarrow> int \<Rightarrow> (string, int) inst" where
  "demo_tag k item title lbl = \<lparr>cls = ''Tag'', pk = k,
     attrs = [''item'' \<mapsto> item, ''title'' \<mapsto> title, ''label'' \<mapsto> lbl]\<rparr>"

text \<open>
  Item 1 with stale computed fields, a tag of it with the title 7, and a tag of it with
  the title -1, for which the compute function raises.
\<close>

definition demo_world :: "(string, int, (string, int) inst list) world" where
  "demo_world = \<lparr>the_resolver = demo_propagation, connection_hashes = Map.empty,
     database = [demo_item 1 1 1 0 0 0, demo_tag 10 1 7 0, demo_tag 11 1 (- 1) 0]\<rparr>"

text \<open>What a database holds for a field, row by row of a model.\<close>

definition column_of :: "(string, int) inst list \<Rightarrow> string \<Rightarrow> string \<Rightarrow> int option list" where
  "column_of d model f = map (\<lambda>r. attrs r f) (filter (\<lambda>r. cls r = model) d)"


text \<open>
  Values with a NaN, as Python's floats have one: \<open>!=\<close> holds whenever one side is NaN.
  The model \<open>Stat\<close> has the computed field \<open>mean = total / count\<close>, which is NaN for a count
  of zero. The database of this configuration is the list of rows together with the
  primary keys of every \<open>bulk_update\<close> call made so far.
\<close>

datatype demo_float = Float int | NaN

definition demo_ne :: "demo_float \<Rightarrow> demo_float \<Rightarrow> bool" where
  "demo_ne x y \<longleftrightarrow> x = NaN \<or> y = NaN \<or> x \<noteq> y"

definition demo_mean :: "(string, demo_float) inst \<Rightarrow> error + demo_float" where
  "demo_mean i =
     (case getattr i ''total'' of
        Inl e \<Rightarrow> Inl e
      | Inr t \<Rightarrow>
          (case getattr i ''count'' of
             Inl e \<Rightarrow> Inl e
           | Inr c \<Rightarrow>
               (case (t, c) of
                  (Float x, Float y) \<Rightarrow> if y = 0 then Inr NaN else Inr (Float (x div y))
                | _ \<Rightarrow> Inr NaN)))"

definition demo_stats :: "(string, demo_float) resolver" where
  "demo_stats = \<lparr>
     computed_models = [''Stat'' \<mapsto> [''mean'' \<mapsto> \<lparr>func = demo_mean, select_related = [],
                                                 prefetch_related = []\<rparr>]],
     lookup_map = Map.empty,
     local_mro = [''Stat'' \<mapsto> \<lparr>base = [''mean''],
                               mro_fields = [''total'' \<mapsto> 1, ''count'' \<mapsto> 1, ''mean'' \<mapsto> 1]\<rparr>],
     batchsize = 2, use_fastupdate = None\<rparr>"

definition demo_stat ::
  "int \<Rightarrow> demo_float \<Rightarrow> demo_float \<Rightarrow> demo_float \<Rightarrow> (string, demo_float) inst" where
  "demo_stat k t c m = \<lparr>cls = ''Stat'', pk = Float k,
     attrs = [''total'' \<mapsto> t, ''count'' \<mapsto> c, ''mean'' \<mapsto> m]\<rparr>"

definition demo_float_connection :: "demo_float connection" where
  "demo_float_connection = \<lparr>vendor = ''sqlite'', handle = 7, is_open = True,
     sqlite_version_info = (3, 38, 0), get_db_prep_save = (\<lambda>f x. x),
     cast_col = (\<lambda>t f. dq t @ ''.'' @ dq (column f)),
     accepts_values = True, accepts_row = False\<rparr>"

definition demo_stats_orm ::
  "(string, demo_float, (string, demo_float) inst list \<times> demo_float list list) orm" where
  "demo_stats_orm = \<lparr>value_ne = demo_ne,
     fetch = (\<lambda>d q. Inr (demo_eval (fst d) q)),
     run = (\<lambda>d model x. case demo_run (fst d) model x of
                           Inl e \<Rightarrow> Inl e
                         | Inr rows \<Rightarrow>
                             Inr (rows, snd d @ (case x of
                                                   Bulk_update objs fieldnames batch_size \<Rightarrow>
                                                     [map pk objs]
                                                 | _ \<Rightarrow> []))),
     meta_of = (\<lambda>model. demo_meta), default_connection = demo_float_connection,
     COMPUTEDFIELDS_FASTUPDATE = False, COMPUTEDFIELDS_BATCHSIZE_FAST = None\<rparr>"

text \<open>
  One row whose count is zero: its mean is NaN and NaN is what the function yields.
\<close>

definition demo_stats_world ::
  "(string, demo_float, (string, demo_float) inst list \<times> demo_float list list) world" where
  "demo_stats_world = \<lparr>the_resolver = demo_stats, connection_hashes = Map.empty,
     database = ([demo_stat 1 (Float 0) (Float 0) NaN], [])\<rparr>"

text \<open>The same configuration on a table of the given rows, with nothing written yet.\<close>

definition demo_stats_table ::
  "(string, demo_float) inst list \<Rightarrow>
   (string, demo_float, (string, demo_float) inst list \<times> demo_float list list) world" where
  "demo_stats_table rows = demo_stats_world\<lparr>database := (rows, [])\<rparr>"

section \<open>Properties\<close>

lemma bit_fold_or:
  "bit (fold (\<lambda>field mro. mro OR fields_get entry field) fs m) pos \<longleftrightarrow>
     bit m pos \<or> (\<exists>f \<in> set fs. bit (fields_get entry f) pos)"
  by (induction fs arbitrary: m) (auto simp: bit_or_iff)

lemma filter_enumerate_nths:
  "map snd (filter (\<lambda>(pos, name). P pos) (enumerate 0 xs)) = nths xs {pos. P pos}"
proof -
  have "map snd (filter (\<lambda>(pos, name). P pos) (enumerate 0 xs)) =
        map snd (filter (\<lambda>p. P (fst p)) (zip [0..<length xs] xs))"
    by (simp add: enumerate_eq_zip case_prod_unfold)
  also have "\<dots> = map fst (filter (\<lambda>p. P (snd p)) (zip xs [0..<length xs]))"
    by (induction xs rule: rev_induct) auto
  finally show ?thesis by (simp add: nths_def)
qed

lemma test_bit_push: "((m::int) AND push_bit pos 1 \<noteq> 0) = bit m pos"
  by (simp only: bit_iff_and_push_bit_not_eq_0)

lemma subseq_nths_self: "subseq (nths xs A) xs"
proof -
  have "subseq (map fst (filter (\<lambda>p. snd p \<in> A) (zip xs [0..<length xs])))
               (map fst (zip xs [0..<length xs]))"
    by (intro subseq_map subseq_filter_left)
  then show ?thesis by (simp add: nths_def)
qed

subsection \<open>The local MRO of a set of changed fields\<close>

text \<open>
  Claim C3. For a model with an entry in the local MRO table and any update fields,
  \<open>get_local_mro\<close> returns the names of the base sequence at exactly the positions whose
  bit is set in the bitwise OR of the masks of the update fields (a position is set in
  that OR iff it is set in the mask of one of the fields; a field without a mask counts
  as 0). The names come in the order of the base sequence, so the result is a
  subsequence of it. With the update fields omitted the result is the whole base
  sequence, and for a model without an entry it is the empty list.
\<close>

theorem get_local_mro_bitmask_filter:
  "(\<forall>entry. local_mro self model = Some entry \<longrightarrow>
      get_local_mro self model (Some ufs) =
        nths (base entry) {pos. \<exists>f \<in> set ufs. bit (fields_get entry f) pos} \<and>
      subseq (get_local_mro self model (Some ufs)) (base entry) \<and>
      get_local_mro self model None = base entry) \<and>
   (local_mro self model = None \<longrightarrow> get_local_mro self model update_fields = [])"
proof (intro conjI allI impI)
  fix entry assume e: "local_mro self model = Some entry"
  show sel: "get_local_mro self model (Some ufs) =
      nths (base entry) {pos. \<exists>f \<in> set ufs. bit (fields_get entry f) pos}"
  proof -
    let ?mro = "fold (\<lambda>field mro. mro OR fields_get entry field) (remdups ufs) 0"
    have "{pos. ?mro AND push_bit pos 1 \<noteq> 0} =
          {pos. \<exists>f \<in> set ufs. bit (fields_get entry f) pos}"
      by (simp only: test_bit_push bit_fold_or set_remdups) simp
    moreover have "get_local_mro self model (Some ufs) =
          nths (base entry) {pos. ?mro AND push_bit pos 1 \<noteq> 0}"
      using e by (simp only: get_local_mro_def Let_def option.case filter_enumerate_nths)
    ultimately show ?thesis by (simp only:)
  qed
  show "subseq (get_local_mro self model (Some ufs)) (base entry)"
    unfolding sel by (rule subseq_nths_self)
  show "get_local_mro self model None = base entry"
    using e by (simp add: get_local_mro_def)
next
  assume "local_mro self model = None"
  then show "get_local_mro self model update_fields = []"
    by (simp add: get_local_mro_def)
qed

theorem get_local_mro_bitmask_filter_witness:
  "local_mro demo_resolver ''Item'' = Some demo_entry \<and>
   get_local_mro demo_resolver ''Item'' (Some [''b'', ''c2'']) = [''c2'', ''c3''] \<and>
   get_local_mro demo_resolver ''Item'' (Some [''b'', ''c2'']) =
     nths (base demo_entry) {pos. \<exists>f \<in> set [''b'', ''c2'']. bit (fields_get demo_entry f) pos} \<and>
   subseq [''c2'', ''c3''] [''c1'', ''c2'', ''c3''] \<and>
   get_local_mro demo_resolver ''Item'' None = [''c1'', ''c2'', ''c3''] \<and>
   local_mro demo_resolver ''Order'' = None \<and>
   get_local_mro demo_resolver ''Order'' (Some [''b'']) = []"
proof -
  have e: "local_mro demo_resolver ''Item'' = Some demo_entry"
    by (simp add: demo_resolver_def)
  have n: "local_mro demo_resolver ''Order'' = None"
    by (simp add: demo_resolver_def)
  have v: "get_local_mro demo_resolver ''Item'' (Some [''b'', ''c2'']) = [''c2'', ''c3'']"
    by code_simp
  have b: "base demo_entry = [''c1'', ''c2'', ''c3'']"
    by (simp add: demo_entry_def)
  from get_local_mro_bitmask_filter [of demo_resolver "''Item''" "[''b'', ''c2'']" None] e
  have "get_local_mro demo_resolver ''Item'' (Some [''b'', ''c2'']) =
          nths (base demo_entry)
            {pos. \<exists>f \<in> set [''b'', ''c2'']. bit (fields_get demo_entry f) pos}"
    and "subseq (get_local_mro demo_resolver ''Item'' (Some [''b'', ''c2''])) (base demo_entry)"
    and "get_local_mro demo_resolver ''Item'' None = base demo_entry"
    by blast+
  moreover from get_local_mro_bitmask_filter [of demo_resolver "''Order''" "[]" "Some [''b'']"] n
  have "get_local_mro demo_resolver ''Order'' (Some [''b'']) = []"
    by blast
  ultimately show ?thesis using e n v b by (simp only: simp_thms)
qed

subsection \<open>Assignments and rewinding\<close>

lemma setattr_setattr [simp]: "setattr (setattr i f v) f w = setattr i f w"
  by (simp add: setattr_def)

lemma setattr_same: "attrs i f = Some v \<Longrightarrow> setattr i f v = i"
  by (simp add: setattr_def map_upd_triv)

lemma setattr_twist: "f \<noteq> g \<Longrightarrow> setattr (setattr i f v) g w = setattr (setattr i g w) f v"
  by (simp add: setattr_def fun_upd_twist)

lemma attrs_setattr [simp]: "attrs (setattr i f v) g = (if g = f then Some v else attrs i g)"
  by (simp add: setattr_def)

lemma cls_setattr [simp]: "cls (setattr i f v) = cls i"
  by (simp add: setattr_def)

lemma pk_setattr [simp]: "pk (setattr i f v) = pk i"
  by (simp add: setattr_def)

lemma rewind_Nil [simp]: "rewind [] i = i"
  by (simp add: rewind_def)

lemma rewind_snoc [simp]: "rewind (stack @ [(f, old)]) i = setattr (rewind stack i) f old"
  by (simp add: rewind_def)

lemma rewind_Cons [simp]: "rewind ((f, old) # stack) i = rewind stack (setattr i f old)"
  by (simp add: rewind_def)

lemma rewind_setattr_commute:
  "f \<notin> fst ` set stack \<Longrightarrow> rewind stack (setattr i f v) = setattr (rewind stack i) f v"
proof (induction stack arbitrary: i)
  case Nil
  then show ?case by simp
next
  case (Cons p stack)
  obtain g old where p: "p = (g, old)" by (cases p)
  with Cons.prems have "f \<noteq> g" "f \<notin> fst ` set stack" by auto
  then show ?case using Cons.IH p by (simp add: setattr_twist [of f g])
qed

lemma attrs_rewind_other:
  "f \<notin> fst ` set stack \<Longrightarrow> attrs (rewind stack i) f = attrs i f"
  by (induction stack arbitrary: i) auto

subsection \<open>\<open>compute\<close> leaves the record as it was\<close>

text \<open>
  The loop of \<open>compute\<close>, when it returns a value, hands back the record with the stack
  rewound: a field is stacked with the value it held, no field is stacked twice, and
  the rewinding puts each held value back.
\<close>

lemma compute_loop_rewinds:
  assumes "compute_loop self entries pos model fieldname mro stack cur log = (Inr ret, inst', log')"
    and "fieldname \<in> set mro"
    and "distinct mro"
    and "fst ` set stack \<inter> set mro = {}"
  shows "inst' = rewind stack cur"
  using assms
proof (induction mro arbitrary: stack cur log)
  case Nil
  then show ?case by simp
next
  case (Cons field mro)
  show ?case
  proof (cases "field = fieldname")
    case True
    with Cons.prems(1) show ?thesis
      by (auto split: sum.splits)
  next
    case False
    with Cons.prems have later: "fieldname \<in> set mro" and d: "distinct mro"
      and fresh: "field \<notin> set mro" and nst: "field \<notin> fst ` set stack"
      and disj: "fst ` set stack \<inter> set mro = {}"
      by auto
    show ?thesis
    proof (cases "fields_get entries field AND pos \<noteq> 0")
      case False
      with \<open>field \<noteq> fieldname\<close> Cons.prems(1)
      have "compute_loop self entries pos model fieldname mro stack cur log = (Inr ret, inst', log')"
        by simp
      from Cons.IH [OF this later d disj] show ?thesis .
    next
      case True
      with \<open>field \<noteq> fieldname\<close> Cons.prems(1) obtain old v where
        old: "getattr cur field = Inr old" and
        v: "u_compute self cur model field = Inr v" and
        rec: "compute_loop self entries pos model fieldname mro (stack @ [(field, old)])
                (setattr cur field v) (log @ [Call field, SetAttr field v]) = (Inr ret, inst', log')"
        by (auto split: sum.splits)
      have "fst ` set (stack @ [(field, old)]) \<inter> set mro = {}"
        using disj fresh by auto
      from Cons.IH [OF rec later d this]
      have "inst' = setattr (rewind stack (setattr cur field v)) field old" by simp
      also have "\<dots> = setattr (rewind stack cur) field old"
        using nst by (simp add: rewind_setattr_commute)
      also have "\<dots> = rewind stack cur"
      proof (rule setattr_same)
        from old have "attrs cur field = Some old"
          by (simp add: getattr_def split: option.splits)
        with nst show "attrs (rewind stack cur) field = Some old"
          by (simp add: attrs_rewind_other)
      qed
      finally show ?thesis .
    qed
  qed
qed

text \<open>
  Claim C2. Whenever \<open>compute(instance, fieldname)\<close> returns, the record it was given
  is the record as it was before the call, whatever the field and however many local
  fields had to be computed provisionally on the way. The base sequence of the model's
  local MRO lists each field once (it is an evaluation order of the model's computed
  fields).
\<close>

theorem compute_non_destructive:
  assumes "\<forall>entry. local_mro self (cls instance) = Some entry \<longrightarrow> distinct (base entry)"
    and "compute self instance fieldname = (Inr ret, instance', log)"
  shows "instance' = instance"
proof (cases "fieldname \<in> set (get_local_mro self (cls instance) None)")
  case False
  with assms(2) show ?thesis
    by (auto simp: compute_def Let_def split: sum.splits)
next
  case True
  then obtain entry where e: "local_mro self (cls instance) = Some entry"
    by (cases "local_mro self (cls instance)") (auto simp: get_local_mro_def)
  then have mro: "get_local_mro self (cls instance) None = base entry"
    by (simp add: get_local_mro_def)
  from assms(1) e have d: "distinct (base entry)" by simp
  from True mro assms(2) e obtain n where
    "compute_loop self entry (push_bit n 1) (cls instance) fieldname (base entry) []
       instance [] = (Inr ret, instance', log)"
    by (auto simp: compute_def Let_def split: sum.splits)
  from compute_loop_rewinds [OF this] True mro d show ?thesis by simp
qed

theorem compute_non_destructive_witness:
  "fst (compute demo_resolver (demo_item 1 1 1 0 0 0) ''c3'') = Inr (Some 5) \<and>
   snd (snd (compute demo_resolver (demo_item 1 1 1 0 0 0) ''c3'')) =
     [Call ''c1'', SetAttr ''c1'' 2, Call ''c2'', SetAttr ''c2'' 4, Call ''c3'',
      SetAttr ''c1'' 0, SetAttr ''c2'' 0] \<and>
   fst (snd (compute demo_resolver (demo_item 1 1 1 0 0 0) ''c3'')) = demo_item 1 1 1 0 0 0"
proof -
  let ?c = "compute demo_resolver (demo_item 1 1 1 0 0 0) ''c3''"
  have r: "fst ?c = Inr (Some 5)"
    by code_simp
  have l: "snd (snd ?c) = [Call ''c1'', SetAttr ''c1'' 2, Call ''c2'', SetAttr ''c2'' 4,
      Call ''c3'', SetAttr ''c1'' 0, SetAttr ''c2'' 0]"
    by code_simp
  have d: "\<forall>entry. local_mro demo_resolver (cls (demo_item 1 1 1 0 0 0)) = Some entry \<longrightarrow>
      distinct (base entry)"
    by (simp add: demo_resolver_def demo_item_def demo_entry_def)
  have "?c = (Inr (Some 5), fst (snd ?c), snd (snd ?c))"
    by (simp add: r [symmetric])
  from compute_non_destructive [OF d this] r l show ?thesis by simp
qed

subsection \<open>\<open>compute\<close> of a field outside the local MRO\<close>

text \<open>
  Claim C10. For a field name that is not in the model's local MRO (also when the model
  has no local MRO at all), \<open>compute\<close> is \<open>getattr\<close>: it returns the value the record
  holds under that name (\<open>AttributeError\<close> when it holds none), calls no compute function
  and assigns nothing.
\<close>

theorem compute_foreign_field:
  assumes "\<forall>entry. local_mro self (cls instance) = Some entry \<longrightarrow> fieldname \<notin> set (base entry)"
  shows "compute self instance fieldname =
           (case attrs instance fieldname of
              None \<Rightarrow> (Inl (AttributeError fieldname), instance, [])
            | Some v \<Rightarrow> (Inr (Some v), instance, []))"
proof -
  have "fieldname \<notin> set (get_local_mro self (cls instance) None)"
    using assms by (auto simp: get_local_mro_def split: option.splits)
  then show ?thesis
    by (simp add: compute_def Let_def getattr_def split: option.splits)
qed

theorem compute_foreign_field_witness:
  "compute demo_resolver (demo_item 1 8 9 0 0 0) ''b'' =
     (Inr (Some 9), demo_item 1 8 9 0 0 0, []) \<and>
   compute demo_resolver (demo_item 1 8 9 0 0 0) ''zz'' =
     (Inl (AttributeError ''zz''), demo_item 1 8 9 0 0 0, [])"
proof -
  have h: "\<forall>entry. local_mro demo_resolver (cls (demo_item 1 8 9 0 0 0)) = Some entry \<longrightarrow>
      f \<notin> set (base entry)" if "f \<notin> {''c1'', ''c2'', ''c3''}" for f
    using that by (simp add: demo_resolver_def demo_item_def demo_entry_def)
  have "attrs (demo_item 1 8 9 0 0 0) ''b'' = Some 9"
    and "attrs (demo_item 1 8 9 0 0 0) ''zz'' = None"
    by (simp_all add: demo_item_def)
  with compute_foreign_field [OF h, of "''b''"] compute_foreign_field [OF h, of "''zz''"]
  show ?thesis by simp
qed


subsection \<open>The assignment loop of \<open>update_computedfields\<close>\<close>

lemma assign_loop_append:
  "assign_loop self model mro i (log @ es0) =
     (case assign_loop self model mro i es0 of (r, i', es) \<Rightarrow> (r, i', log @ es))"
proof (induction mro arbitrary: i es0)
  case Nil
  show ?case by simp
next
  case (Cons f mro)
  show ?case
  proof (cases "u_compute self i model f")
    case (Inl e)
    then show ?thesis by simp
  next
    case (Inr v)
    from Cons.IH [of "setattr i f v" "es0 @ [Call f, SetAttr f v]"] Inr
    show ?thesis by simp
  qed
qed

lemma assign_loop_step:
  assumes "u_compute self i model f = Inr v"
  shows "assign_loop self model (f # mro) i [] =
     (case assign_loop self model mro (setattr i f v) [] of
        (r, i', es) \<Rightarrow> (r, i', Call f # SetAttr f v # es))"
  using assms assign_loop_append [of self model mro "setattr i f v" "[Call f, SetAttr f v]" "[]"]
  by simp

lemma assign_loop_recomputes:
  "assign_loop self model mro i [] = (Inr u, i', es) \<Longrightarrow>
   recomputes self model es i \<and> assigned_names es = mro \<and>
   i' = replay es i \<and> i' = recomputed self model mro i"
proof (induction mro arbitrary: i es)
  case Nil
  then show ?case by simp
next
  case (Cons f mro)
  show ?case
  proof (cases "u_compute self i model f")
    case (Inl e)
    with Cons.prems show ?thesis by simp
  next
    case (Inr v)
    from Cons.prems assign_loop_step [OF Inr, of mro] obtain es' where
      rec: "assign_loop self model mro (setattr i f v) [] = (Inr u, i', es')"
      and es: "es = Call f # SetAttr f v # es'"
      by (auto split: prod.splits)
    from Cons.IH [OF rec] Inr es show ?thesis by auto
  qed
qed

lemma u_compute_recomputed_frame:
  assumes "\<forall>g \<in> set mro. \<forall>i v. u_compute self (setattr i g v) model f = u_compute self i model f"
  shows "u_compute self (recomputed self model mro i) model f = u_compute self i model f"
  using assms
proof (induction mro arbitrary: i)
  case Nil
  show ?case by simp
next
  case (Cons g mro)
  then show ?case
    by (cases "u_compute self i model g") auto
qed

lemma attrs_recomputed_other:
  "f \<notin> set mro \<Longrightarrow> attrs (recomputed self model mro i) f = attrs i f"
proof (induction mro arbitrary: i)
  case Nil
  show ?case by simp
next
  case (Cons g mro)
  then show ?case
    by (cases "u_compute self i model g") auto
qed

lemma assign_loop_settles:
  assumes "assign_loop self model mro i [] = (Inr u, i', es)"
    and "evaluation_order self model mro"
  shows "settled self model mro i'"
  using assms
proof (induction mro arbitrary: i es)
  case Nil
  show ?case by (simp add: settled_def)
next
  case (Cons f mro)
  from Cons.prems(1) obtain v where v: "u_compute self i model f = Inr v"
    by (cases "u_compute self i model f") auto
  from Cons.prems(1) assign_loop_step [OF v, of mro] obtain es' where
    rec: "assign_loop self model mro (setattr i f v) [] = (Inr u, i', es')"
    by (auto split: prod.splits)
  from Cons.prems(2) have ord: "evaluation_order self model mro"
    and self_ins: "\<And>j w. u_compute self (setattr j f w) model f = u_compute self j model f"
    and later_ins: "\<forall>g \<in> set mro. \<forall>j w. u_compute self (setattr j g w) model f = u_compute self j model f"
    by auto
  from Cons.IH [OF rec ord] have rest: "settled self model mro i'" .
  from assign_loop_recomputes [OF rec]
  have i': "i' = recomputed self model mro (setattr i f v)" by blast
  have cf: "u_compute self i' model f = Inr v"
    unfolding i' using u_compute_recomputed_frame [OF later_ins] self_ins v by simp
  have "attrs i' f = Some v"
  proof (cases "f \<in> set mro")
    case True
    with rest cf show ?thesis by (auto simp: settled_def)
  next
    case False
    then show ?thesis unfolding i' by (simp add: attrs_recomputed_other)
  qed
  with cf rest show ?case by (auto simp: settled_def)
qed

lemma assign_loop_settled:
  assumes "settled self model mro i"
  shows "\<exists>es. assign_loop self model mro i [] = (Inr (), i, es) \<and> noops es i \<and> assigned_names es = mro"
  using assms
proof (induction mro)
  case Nil
  show ?case by simp
next
  case (Cons f mro)
  from Cons.prems obtain v where v: "u_compute self i model f = Inr v" "attrs i f = Some v"
    and rest: "settled self model mro i"
    by (auto simp: settled_def)
  from Cons.IH [OF rest] obtain es where
    es: "assign_loop self model mro i [] = (Inr (), i, es)" "noops es i" "assigned_names es = mro"
    by blast
  have same: "setattr i f v = i" using v(2) by (rule setattr_same)
  from assign_loop_step [OF v(1), of mro] es same v
  show ?case by simp
qed

lemma cls_recomputed [simp]: "cls (recomputed self model mro i) = cls i"
proof (induction mro arbitrary: i)
  case Nil
  show ?case by simp
next
  case (Cons g mro)
  then show ?case by (cases "u_compute self i model g") auto
qed

lemma update_computedfields_unfold:
  assumes "has_computedfields self (cls instance)"
  shows "update_computedfields self instance update_fields =
     (case assign_loop self (cls instance) (get_local_mro self (cls instance) update_fields) instance [] of
        (Inl e, instance', log) \<Rightarrow> (Inl e, instance', log)
      | (Inr u, instance', log) \<Rightarrow>
          (Inr (case update_fields of
                  None \<Rightarrow> None
                | Some ufs \<Rightarrow>
                    if ufs = [] then None
                    else Some (set ufs \<union> set (get_local_mro self (cls instance) update_fields))),
           instance', log))"
  using assms
  by (auto simp: update_computedfields_def Let_def truthy_def split: prod.splits sum.splits option.splits)

lemma demo_evaluation_order:
  "evaluation_order demo_resolver ''Item'' [''c1'', ''c2'', ''c3'']"
  by (simp add: u_compute_def demo_resolver_def demo_fields_def getattr_def
      cong: sum.case_cong option.case_cong)

subsection \<open>What \<open>update_computedfields\<close> assigns and returns\<close>

text \<open>
  Claim C6, as stated, at an explicit input: with the update fields omitted the three
  computed fields of the record are recomputed and assigned, and the call returns \<open>None\<close>,
  not a set of field names; with the update fields present and empty it returns \<open>None\<close>
  as well.
\<close>

theorem update_computedfields_returns_no_set:
  "fst (update_computedfields demo_resolver (demo_item 1 1 1 0 0 0) None) = Inr None \<and>
   snd (snd (update_computedfields demo_resolver (demo_item 1 1 1 0 0 0) None)) =
     [Call ''c1'', SetAttr ''c1'' 2, Call ''c2'', SetAttr ''c2'' 4, Call ''c3'', SetAttr ''c3'' 5] \<and>
   fst (update_computedfields demo_resolver (demo_item 1 1 1 0 0 0) (Some [])) = Inr None"
  by code_simp

text \<open>
  Claim C6, amended. For a record whose model has computed fields, a call of
  \<open>update_computedfields\<close> that returns has recomputed and assigned exactly the fields
  of \<open>get_local_mro(model, update_fields)\<close>, in that order (all local computed fields
  when the update fields are omitted), each with the value its compute function has on
  the record at that moment. When the update fields are present and not empty it returns
  them united with the recomputed field names, whether or not a value changed; when they
  are omitted or empty it returns \<open>None\<close>. For a model without computed fields it assigns
  nothing and hands the update fields back.
\<close>

theorem update_computedfields_recomputes:
  assumes "update_computedfields self instance update_fields = (Inr ret, instance', log)"
  shows "if has_computedfields self (cls instance) then
           assigned_names log = get_local_mro self (cls instance) update_fields \<and>
           recomputes self (cls instance) log instance \<and>
           instance' = replay log instance \<and>
           ret = (case update_fields of
                    None \<Rightarrow> None
                  | Some ufs \<Rightarrow>
                      if ufs = [] then None
                      else Some (set ufs \<union> set (get_local_mro self (cls instance) update_fields)))
         else ret = map_option set update_fields \<and> instance' = instance \<and> log = []"
proof (cases "has_computedfields self (cls instance)")
  case False
  with assms show ?thesis by (simp add: update_computedfields_def)
next
  case True
  let ?mro = "get_local_mro self (cls instance) update_fields"
  from assms update_computedfields_unfold [OF True, of update_fields]
  have loop: "assign_loop self (cls instance) ?mro instance [] = (Inr (), instance', log)"
    and ret: "ret = (case update_fields of None \<Rightarrow> None
        | Some ufs \<Rightarrow> if ufs = [] then None else Some (set ufs \<union> set ?mro))"
    by (auto split: prod.splits sum.splits)
  from assign_loop_recomputes [OF loop] ret True show ?thesis by simp
qed

theorem update_computedfields_recomputes_witness:
  "fst (update_computedfields demo_resolver (demo_item 1 1 1 2 4 0) (Some [''b''])) =
     Inr (Some {''b'', ''c3''}) \<and>
   snd (snd (update_computedfields demo_resolver (demo_item 1 1 1 2 4 0) (Some [''b'']))) =
     [Call ''c3'', SetAttr ''c3'' 5] \<and>
   fst (snd (update_computedfields demo_resolver (demo_item 1 1 1 2 4 0) (Some [''b'']))) =
     replay [Call ''c3'', SetAttr ''c3'' 5] (demo_item 1 1 1 2 4 0) \<and>
   recomputes demo_resolver ''Item'' [Call ''c3'', SetAttr ''c3'' 5] (demo_item 1 1 1 2 4 0)"
proof -
  let ?u = "update_computedfields demo_resolver (demo_item 1 1 1 2 4 0) (Some [''b''])"
  have r: "fst ?u = Inr (Some {''b'', ''c3''})"
    by code_simp
  have l: "snd (snd ?u) = [Call ''c3'', SetAttr ''c3'' 5]"
    by code_simp
  have h: "has_computedfields demo_resolver (cls (demo_item 1 1 1 2 4 0))"
    by (simp add: has_computedfields_def demo_resolver_def demo_item_def)
  have c: "cls (demo_item 1 1 1 2 4 0) = ''Item''"
    by (simp add: demo_item_def)
  have "?u = (Inr (Some {''b'', ''c3''}), fst (snd ?u), snd (snd ?u))"
    by (simp add: r [symmetric])
  from update_computedfields_recomputes [OF this] h r l c show ?thesis
    by (simp only: if_True simp_thms)
qed

subsection \<open>A second \<open>update_computedfields\<close> changes nothing\<close>

text \<open>
  Claim C9. When \<open>update_computedfields\<close> has returned and is called again on the same
  record with the same update fields, the second call returns the same result and every
  value it assigns is the value the record already holds, so the record stays as the first
  call left it. The compute functions are functions of the record's fields, and the local
  MRO is an evaluation order for them: no function reads its own field or a field later
  in the MRO.
\<close>

theorem update_computedfields_idempotent:
  assumes "update_computedfields self instance update_fields = (Inr ret, instance', log)"
    and "evaluation_order self (cls instance) (get_local_mro self (cls instance) update_fields)"
  shows "\<exists>log2. update_computedfields self instance' update_fields = (Inr ret, instance', log2) \<and>
           noops log2 instance' \<and> assigned_names log2 = assigned_names log"
proof (cases "has_computedfields self (cls instance)")
  case False
  with assms(1) have "instance' = instance" "log = []" "ret = map_option set update_fields"
    by (simp_all add: update_computedfields_def)
  with False show ?thesis by (simp add: update_computedfields_def)
next
  case True
  let ?mro = "get_local_mro self (cls instance) update_fields"
  from assms(1) update_computedfields_unfold [OF True, of update_fields]
  have loop: "assign_loop self (cls instance) ?mro instance [] = (Inr (), instance', log)"
    and ret: "ret = (case update_fields of None \<Rightarrow> None
        | Some ufs \<Rightarrow> if ufs = [] then None else Some (set ufs \<union> set ?mro))"
    by (auto split: prod.splits sum.splits)
  from assign_loop_recomputes [OF loop]
  have names: "assigned_names log = ?mro" and i': "instance' = recomputed self (cls instance) ?mro instance"
    by blast+
  from i' have c: "cls instance' = cls instance" by simp
  from assign_loop_settles [OF loop assms(2)]
  have "settled self (cls instance) ?mro instance'" .
  from assign_loop_settled [OF this] obtain es where
    es: "assign_loop self (cls instance) ?mro instance' [] = (Inr (), instance', es)"
      "noops es instance'" "assigned_names es = ?mro"
    by blast
  from True c have "has_computedfields self (cls instance')" by simp
  from update_computedfields_unfold [OF this, of update_fields]
  have "update_computedfields self instance' update_fields = (Inr ret, instance', es)"
    unfolding c es(1) ret by simp
  with es(2,3) names show ?thesis by simp
qed

theorem update_computedfields_idempotent_witness:
  "fst (update_computedfields demo_resolver (demo_item 1 1 1 0 0 0) None) = Inr None \<and>
   evaluation_order demo_resolver ''Item'' (get_local_mro demo_resolver ''Item'' None) \<and>
   (\<exists>log2. update_computedfields demo_resolver
              (fst (snd (update_computedfields demo_resolver (demo_item 1 1 1 0 0 0) None))) None =
            (Inr None, fst (snd (update_computedfields demo_resolver (demo_item 1 1 1 0 0 0) None)), log2) \<and>
          noops log2 (fst (snd (update_computedfields demo_resolver (demo_item 1 1 1 0 0 0) None))) \<and>
          assigned_names log2 = [''c1'', ''c2'', ''c3''])"
proof -
  let ?u = "update_computedfields demo_resolver (demo_item 1 1 1 0 0 0) None"
  have r: "fst ?u = Inr None"
    by code_simp
  have l: "assigned_names (snd (snd ?u)) = [''c1'', ''c2'', ''c3'']"
    by code_simp
  have c: "cls (demo_item 1 1 1 0 0 0) = ''Item''"
    by (simp add: demo_item_def)
  have m: "get_local_mro demo_resolver ''Item'' None = [''c1'', ''c2'', ''c3'']"
    by code_simp
  have o: "evaluation_order demo_resolver (cls (demo_item 1 1 1 0 0 0))
      (get_local_mro demo_resolver (cls (demo_item 1 1 1 0 0 0)) None)"
    unfolding c m by (rule demo_evaluation_order)
  have "?u = (Inr None, fst (snd ?u), snd (snd ?u))"
    by (simp add: r [symmetric])
  from update_computedfields_idempotent [OF this o] r o l c show ?thesis
    by (simp only: simp_thms)
qed


subsection \<open>The split of the requested field names in \<open>fast_update\<close>\<close>

lemma split_fieldnames_filter:
  assumes "\<forall>f \<in> set fieldnames. known m f"
  shows "split_fieldnames m fieldnames nl l =
           Inr (nl @ filter (\<lambda>f. \<not> is_local m f) fieldnames, l @ filter (is_local m) fieldnames)"
  using assms
proof (induction fieldnames arbitrary: nl l)
  case Nil
  show ?case by simp
next
  case (Cons f fieldnames)
  from Cons.prems obtain fld where "get_field m f = Some fld"
    by (auto simp: known_def)
  with Cons show ?case by (simp add: is_local_def)
qed

subsection \<open>The statement text is built anew for every flush\<close>

text \<open>
  Claim C4, at an explicit input: four records with a batch size of two are flushed as two
  batches of the same cardinality 2, and the statement text is built for each of them
  (twice the same text), not once. \<open>last_counter\<close> is set to \<open>-1\<close> before the loop and is
  never assigned in it, so the test \<open>counter != last_counter\<close> holds for every batch.
\<close>

theorem fast_update_rebuilds_statement:
  "generated (projr (fst (fast_update demo_meta (demo_connection ''sqlite'') Map.empty
      [demo_row 1 2 4, demo_row 2 3 6, demo_row 3 4 8, demo_row 4 5 10] [''c1'', ''c2''] 2))) =
     [2, 2] \<and>
   statements (projr (fst (fast_update demo_meta (demo_connection ''sqlite'') Map.empty
      [demo_row 1 2 4, demo_row 2 3 6, demo_row 3 4 8, demo_row 4 5 10] [''c1'', ''c2''] 2))) =
     [as_sqlite ''item'' ''id'' [demo_field ''c1'', demo_field ''c2''] 2 (demo_connection ''sqlite''),
      as_sqlite ''item'' ''id'' [demo_field ''c1'', demo_field ''c2''] 2 (demo_connection ''sqlite'')]"
  by code_simp

text \<open>
  The same for every run of the loop that starts, as \<open>fast_update\<close> starts it, with
  \<open>last_counter = -1\<close>: as long as the vendor has a statement text, one is built for each
  batch, whatever the cardinality of the batch before.
\<close>

lemma flush_generates_each:
  assumes "\<forall>(counter, data) \<in> set batches. 0 \<le> counter \<and>
             QUERY_get vend tablename (column pk_field) flds counter connection \<noteq> []"
  shows "generated (fst (flush vend tablename pk_field flds connection objs fieldnames batch_size
            batches sql (- 1))) = map fst batches"
  using assms
proof (induction batches arbitrary: sql)
  case Nil
  show ?case by simp
next
  case (Cons b batches)
  obtain counter data where b: "b = (counter, data)" by (cases b)
  with Cons.prems have c: "counter \<noteq> - 1"
    and q: "QUERY_get vend tablename (column pk_field) flds counter connection \<noteq> []"
    and rest: "\<forall>(counter, data) \<in> set batches. 0 \<le> counter \<and>
             QUERY_get vend tablename (column pk_field) flds counter connection \<noteq> []"
    by auto
  from Cons.IH [OF rest] b c q show ?case
    by (simp add: Let_def case_prod_beta)
qed

subsection \<open>\<open>fast_update\<close> on a model without primary key\<close>




subsection \<open>When \<open>fast_update\<close> takes the naive path for the whole batch\<close>

text \<open>
  Claim C8, as stated, at an explicit input: a single requested field that is local to
  the model (fewer than two eligible fields) is written on the fast path, by one built
  and executed statement, and \<open>bulk_update\<close> is not called.
\<close>

theorem fast_update_single_local_field_fast:
  "known demo_meta ''c1'' \<and> is_local demo_meta ''c1'' \<and>
   \<not> isl (fst (fast_update demo_meta (demo_connection ''sqlite'') Map.empty
      [demo_row 1 2 4, demo_row 2 3 6] [''c1''] 2)) \<and>
   generated (projr (fst (fast_update demo_meta (demo_connection ''sqlite'') Map.empty
      [demo_row 1 2 4, demo_row 2 3 6] [''c1''] 2))) = [2] \<and>
   statements (projr (fst (fast_update demo_meta (demo_connection ''sqlite'') Map.empty
      [demo_row 1 2 4, demo_row 2 3 6] [''c1''] 2))) =
     [as_sqlite ''item'' ''id'' [demo_field ''c1''] 2 (demo_connection ''sqlite'')] \<and>
   bulk_updates (projr (fst (fast_update demo_meta (demo_connection ''sqlite'') Map.empty
      [demo_row 1 2 4, demo_row 2 3 6] [''c1''] 2))) = []"
  by code_simp

text \<open>
  Claim C8, amended. Whenever at least one requested field is not local to the model and
  fewer than two requested fields are local, the entire batch is routed through the naive
  path: \<open>fast_update\<close> is one call of \<open>bulk_update\<close> with all records and all requested
  field names, and no statement is built or executed.
\<close>

theorem fast_update_naive_for_mixed_fields:
  assumes "\<forall>f \<in> set fieldnames. known m f"
    and "\<exists>f \<in> set fieldnames. \<not> is_local m f"
    and "length (filter (is_local m) fieldnames) < 2"
  shows "fast_update m connection CONNECTION_HASHES objs fieldnames batch_size =
           (Inr [Bulk_update objs fieldnames (Some batch_size)], CONNECTION_HASHES)"
proof -
  from assms(2) have "filter (\<lambda>f. \<not> is_local m f) fieldnames \<noteq> []"
    by (simp add: filter_empty_conv)
  with assms(3) split_fieldnames_filter [OF assms(1), of "[]" "[]"] show ?thesis
    by (simp add: fast_update_def)
qed

theorem fast_update_naive_for_mixed_fields_witness:
  "known demo_meta ''c1'' \<and> known demo_meta ''note'' \<and>
   is_local demo_meta ''c1'' \<and> \<not> is_local demo_meta ''note'' \<and>
   length (filter (is_local demo_meta) [''c1'', ''note'']) < 2 \<and>
   fast_update demo_meta (demo_connection ''sqlite'') Map.empty
      [demo_row 1 2 4, demo_row 2 3 6] [''c1'', ''note''] 2 =
     (Inr [Bulk_update [demo_row 1 2 4, demo_row 2 3 6] [''c1'', ''note''] (Some 2)], Map.empty)"
proof -
  have k: "\<forall>f \<in> set [''c1'', ''note'']. known demo_meta f"
    by code_simp
  have n: "\<exists>f \<in> set [''c1'', ''note'']. \<not> is_local demo_meta f"
    by code_simp
  have l: "length (filter (is_local demo_meta) [''c1'', ''note'']) < 2"
    by code_simp
  have "is_local demo_meta ''c1''" and "\<not> is_local demo_meta ''note''"
    by code_simp+
  with fast_update_naive_for_mixed_fields [OF k n l] k n l show ?thesis by simp
qed


subsection \<open>Which records \<open>bulk_updater\<close> writes\<close>

text \<open>
  The flag \<open>has_changed\<close> of the record loop: it is set exactly when for some field of the
  MRO the value computed on the record as fetched compares unequal to the held one. (Up
  to the first such field nothing is assigned, so the record is still as fetched.)
\<close>

lemma recalc_flag:
  "recalc ne self model mro elem b = Inr (elem', b') \<Longrightarrow>
   (b' \<longleftrightarrow> b \<or> differs ne self model mro elem)"
proof (induction mro arbitrary: elem b)
  case Nil
  then show ?case by (simp add: differs_def)
next
  case (Cons f mro)
  from Cons.prems obtain new cur where
    new: "u_compute self elem model f = Inr new" and cur: "getattr elem f = Inr cur"
    by (auto split: sum.splits)
  from cur have held: "attrs elem f = Some cur"
    by (simp add: getattr_def split: option.splits)
  show ?case
  proof (cases "ne new cur")
    case True
    with Cons.prems new cur
    have "recalc ne self model mro (setattr elem f new) True = Inr (elem', b')" by simp
    from Cons.IH [OF this] have "b'" by simp
    moreover from True new held have "differs ne self model (f # mro) elem"
      by (simp add: differs_def)
    ultimately show ?thesis by simp
  next
    case False
    with Cons.prems new cur
    have "recalc ne self model mro elem b = Inr (elem', b')" by simp
    from Cons.IH [OF this] have "b' \<longleftrightarrow> b \<or> differs ne self model mro elem" .
    moreover from False new held
    have "differs ne self model (f # mro) elem \<longleftrightarrow> differs ne self model mro elem"
      by (simp add: differs_def)
    ultimately show ?thesis by simp
  qed
qed

lemma walk_batches:
  assumes "walk ne self model mro flds rows seen change writes = (Inr (seen', change'), writes')"
  shows "\<exists>news batches.
           length news = length rows \<and> seen' = seen @ news \<and>
           writes' = writes @ map (\<lambda>b. Update b flds) batches \<and>
           concat batches @ change' =
             change @ map snd (filter (\<lambda>(elem, elem'). differs ne self model mro elem)
                                 (zip rows news)) \<and>
           (0 < batchsize self \<longrightarrow> [] \<notin> set batches)"
  using assms
proof (induction rows arbitrary: seen change writes)
  case Nil
  then show ?case by simp
next
  case (Cons elem rows)
  from Cons.prems obtain elem' has_changed where
    rc: "recalc ne self model mro elem False = Inr (elem', has_changed)"
    by (auto split: sum.splits)
  from recalc_flag [OF rc] have h: "has_changed \<longleftrightarrow> differs ne self model mro elem"
    by simp
  let ?change = "if has_changed then change @ [elem'] else change"
  show ?case
  proof (cases "int (length ?change) \<ge> batchsize self")
    case True
    with Cons.prems rc have
      "walk ne self model mro flds rows (seen @ [elem']) [] (writes @ [Update ?change flds]) =
         (Inr (seen', change'), writes')"
      by (simp add: Let_def)
    from Cons.IH [OF this] obtain news batches where
      n: "length news = length rows" "seen' = (seen @ [elem']) @ news"
        "writes' = (writes @ [Update ?change flds]) @ map (\<lambda>b. Update b flds) batches"
        "concat batches @ change' =
           [] @ map snd (filter (\<lambda>(elem, elem'). differs ne self model mro elem) (zip rows news))"
        "0 < batchsize self \<longrightarrow> [] \<notin> set batches"
      by blast
    from True have ne: "0 < batchsize self \<longrightarrow> ?change \<noteq> []" by auto
    show ?thesis
    proof (intro exI conjI)
      show "length (elem' # news) = length (elem # rows)" using n(1) by simp
      show "seen' = seen @ elem' # news" using n(2) by simp
      show "writes' = writes @ map (\<lambda>b. Update b flds) (?change # batches)" using n(3) by simp
      show "concat (?change # batches) @ change' =
              change @ map snd (filter (\<lambda>(elem, elem'). differs ne self model mro elem)
                                  (zip (elem # rows) (elem' # news)))"
        using n(4) h by simp
      show "0 < batchsize self \<longrightarrow> [] \<notin> set (?change # batches)"
        using n(5) ne by auto
    qed
  next
    case False
    with Cons.prems rc have
      "walk ne self model mro flds rows (seen @ [elem']) ?change writes =
         (Inr (seen', change'), writes')"
      by (simp add: Let_def)
    from Cons.IH [OF this] obtain news batches where
      n: "length news = length rows" "seen' = (seen @ [elem']) @ news"
        "writes' = writes @ map (\<lambda>b. Update b flds) batches"
        "concat batches @ change' =
           ?change @ map snd (filter (\<lambda>(elem, elem'). differs ne self model mro elem) (zip rows news))"
        "0 < batchsize self \<longrightarrow> [] \<notin> set batches"
      by blast
    show ?thesis
    proof (intro exI conjI)
      show "length (elem' # news) = length (elem # rows)" using n(1) by simp
      show "seen' = seen @ elem' # news" using n(2) by simp
      show "writes' = writes @ map (\<lambda>b. Update b flds) batches" using n(3) .
      show "concat batches @ change' =
              change @ map snd (filter (\<lambda>(elem, elem'). differs ne self model mro elem)
                                  (zip (elem # rows) (elem' # news)))"
        using n(4) h by simp
      show "0 < batchsize self \<longrightarrow> [] \<notin> set batches" using n(5) .
    qed
  qed
qed

lemma update_records_batches:
  assumes "update_records ne self model mro rows = (Inr rows', writes)"
  shows "\<exists>batches.
           length rows' = length rows \<and>
           writes = map (\<lambda>b. Update b (remdups mro)) batches \<and>
           concat batches =
             map snd (filter (\<lambda>(elem, elem'). differs ne self model mro elem) (zip rows rows')) \<and>
           (0 < batchsize self \<longrightarrow> [] \<notin> set batches)"
proof (cases "mro = []")
  case True
  with assms have "rows' = rows" "writes = []"
    by (simp_all add: update_records_def)
  with True show ?thesis by (simp add: differs_def)
next
  case False
  with assms obtain seen change ws where
    w: "walk ne self model mro (remdups mro) rows [] [] [] = (Inr (seen, change), ws)"
    and rows': "rows' = seen"
    and writes: "writes = (if change \<noteq> [] then ws @ [Update change (remdups mro)] else ws)"
    by (auto simp: update_records_def Let_def split: prod.splits sum.splits if_splits)
  from walk_batches [OF w] obtain news batches where
    n: "length news = length rows" "seen = news"
      "ws = map (\<lambda>b. Update b (remdups mro)) batches"
      "concat batches @ change =
         map snd (filter (\<lambda>(elem, elem'). differs ne self model mro elem) (zip rows news))"
      "0 < batchsize self \<longrightarrow> [] \<notin> set batches"
    by auto
  show ?thesis
  proof (cases "change = []")
    case True
    with n rows' writes show ?thesis by auto
  next
    case c: False
    show ?thesis
    proof (intro exI conjI)
      show "length rows' = length rows" using n rows' by simp
      show "writes = map (\<lambda>b. Update b (remdups mro)) (batches @ [change])"
        using writes c n(3) by simp
      show "concat (batches @ [change]) =
          map snd (filter (\<lambda>(elem, elem'). differs ne self model mro elem) (zip rows rows'))"
        using n(4) n(2) rows' by simp
      show "0 < batchsize self \<longrightarrow> [] \<notin> set (batches @ [change])"
        using n(5) c by auto
    qed
  qed
qed

lemma update_all_written:
  assumes "update_all orm model (map (\<lambda>b. Update b flds) batches) w = (Inr u, w2)"
  shows "written orm (the_resolver w) model flds batches (connection_hashes w) (database w) =
           Inr (connection_hashes w2, database w2) \<and> the_resolver w2 = the_resolver w"
  using assms
proof (induction batches arbitrary: w)
  case Nil
  then show ?case by simp
next
  case (Cons b batches)
  from Cons.prems obtain w1 where
    step: "u_update orm model (Update b flds) w = (Inr (), w1)"
    and rest: "update_all orm model (map (\<lambda>b. Update b flds) batches) w1 = (Inr u, w2)"
    by (auto split: prod.splits sum.splits)
  from Cons.IH [OF rest] have ih:
    "written orm (the_resolver w1) model flds batches (connection_hashes w1) (database w1) =
       Inr (connection_hashes w2, database w2)" "the_resolver w2 = the_resolver w1"
    by simp_all
  show ?case
  proof (cases "use_fastupdate (the_resolver w) = Some True")
    case True
    with step obtain ops hashes d where
      f: "fast_update (meta_of orm model) (default_connection orm) (connection_hashes w) b flds
            (batchsize (the_resolver w)) = (Inr ops, hashes)"
      and r: "run_ops orm model ops (database w) = (Inr (), d)"
      and w1: "w1 = w\<lparr>connection_hashes := hashes, database := d\<rparr>"
      by (auto simp: u_update_def fast_update_db_def split: prod.splits sum.splits)
    from ih w1 True f r show ?thesis by simp
  next
    case False
    with step obtain d where
      r: "run orm (database w) model (Bulk_update b flds None) = Inr d"
      and w1: "w1 = w\<lparr>database := d\<rparr>"
      by (auto simp: u_update_def split: sum.splits)
    from ih w1 False r show ?thesis by simp
  qed
qed

lemma init_fastupdate_database [simp]: "database (init_fastupdate orm w) = database w"
  by (simp add: init_fastupdate_def Let_def split: prod.splits)

lemma init_fastupdate_computed_models [simp]:
  "computed_models (the_resolver (init_fastupdate orm w)) = computed_models (the_resolver w)"
  by (simp add: init_fastupdate_def Let_def split: prod.splits)

lemma u_compute_cong: "computed_models self' = computed_models self \<Longrightarrow>
   u_compute self' i model f = u_compute self i model f"
  by (simp add: u_compute_def)

lemma differs_init [simp]:
  "differs ne (the_resolver (init_fastupdate orm w)) model mro elem =
   differs ne (the_resolver w) model mro elem"
  by (simp add: differs_def u_compute_cong [OF init_fastupdate_computed_models])

lemma written_Nil_iff: "concat batches = [] \<Longrightarrow> [] \<notin> set batches \<Longrightarrow> batches = []"
  by (cases batches) auto

lemma walk_recalc:
  assumes "walk ne self model mro flds rows seen change writes = (Inr (seen', change'), writes')"
  shows "list_all2 (\<lambda>elem elem'. recalc ne self model mro elem False =
                                    Inr (elem', differs ne self model mro elem))
           rows (drop (length seen) seen')"
  using assms
proof (induction rows arbitrary: seen change writes)
  case Nil
  from walk_batches [OF Nil.prems] show ?case by auto
next
  case (Cons elem rows)
  from Cons.prems obtain elem' has_changed where
    rc: "recalc ne self model mro elem False = Inr (elem', has_changed)"
    by (auto split: sum.splits)
  from recalc_flag [OF rc] have h: "has_changed \<longleftrightarrow> differs ne self model mro elem"
    by simp
  let ?change = "if has_changed then change @ [elem'] else change"
  from Cons.prems rc obtain change1 writes1 where
    rest: "walk ne self model mro flds rows (seen @ [elem']) change1 writes1 =
             (Inr (seen', change'), writes')"
    by (cases "int (length ?change) \<ge> batchsize self") (simp_all add: Let_def)
  from walk_batches [OF rest] obtain news where
    s: "seen' = (seen @ [elem']) @ news"
    by blast
  from Cons.IH [OF rest] s rc h show ?case by simp
qed

lemma update_records_recalc:
  assumes "update_records ne self model mro rows = (Inr rows', writes)"
  shows "list_all2 (\<lambda>elem elem'. recalc ne self model mro elem False =
                                    Inr (elem', differs ne self model mro elem)) rows rows'"
proof (cases "mro = []")
  case True
  with assms have "rows' = rows"
    by (simp add: update_records_def)
  with True show ?thesis
    by (simp add: differs_def list_all2_same)
next
  case False
  with assms obtain change ws where
    w: "walk ne self model mro (remdups mro) rows [] [] [] = (Inr (rows', change), ws)"
    by (auto simp: update_records_def Let_def split: prod.splits sum.splits if_splits)
  from walk_recalc [OF w] show ?thesis by simp
qed

lemma evaluated_queryset_hints:
  "hints self (qs_model queryset0) flds [] [] = Inr (select, prefetch) \<Longrightarrow>
   evaluated_queryset self queryset0 flds =
     (if prefetch \<noteq> [] then Prefetch_related prefetch
        (if select \<noteq> [] then Select_related select (Distinct queryset0) else Distinct queryset0)
      else (if select \<noteq> [] then Select_related select (Distinct queryset0)
            else Distinct queryset0))"
  by (simp add: evaluated_queryset_def Let_def)

text \<open>
  Claim C1, as stated, at an explicit input. The only row has a count of zero and holds
  the mean NaN, which is what its compute function yields: no source field has changed
  and the recomputed value is the value held. Python's \<open>!=\<close> holds between NaN and NaN,
  so \<open>bulk_updater\<close> puts the record into the batch and writes it, and does so again on
  every further run.
\<close>

theorem bulk_updater_writes_settled_nan_record:
  "u_compute demo_stats (demo_stat 1 (Float 0) (Float 0) NaN) ''Stat'' ''mean'' = Inr NaN \<and>
   attrs (demo_stat 1 (Float 0) (Float 0) NaN) ''mean'' = Some NaN \<and>
   map pk (fst (database demo_stats_world)) = [Float 1] \<and>
   map (\<lambda>r. attrs r ''mean'') (fst (database demo_stats_world)) = [Some NaN] \<and>
   snd (database demo_stats_world) = [] \<and>
   fst (bulk_updater 1 demo_stats_orm (Objects_filter_pks ''Stat'' [Float 1]) None False True
          demo_stats_world) = Inr (None, None) \<and>
   snd (database (snd (bulk_updater 1 demo_stats_orm (Objects_filter_pks ''Stat'' [Float 1])
          None False True demo_stats_world))) = [[Float 1]] \<and>
   map (\<lambda>r. attrs r ''mean'')
     (fst (database (snd (bulk_updater 1 demo_stats_orm (Objects_filter_pks ''Stat'' [Float 1])
          None False True demo_stats_world)))) = [Some NaN] \<and>
   snd (database (snd (bulk_updater 1 demo_stats_orm (Objects_filter_pks ''Stat'' [Float 1])
          None False True
          (snd (bulk_updater 1 demo_stats_orm (Objects_filter_pks ''Stat'' [Float 1])
                  None False True demo_stats_world))))) = [[Float 1], [Float 1]]"
  by code_simp

text \<open>
  Claim C1, amended. For every queryset that \<open>bulk_updater\<close> processes without raising,
  a record is added to the write batch, and written, if and only if for at least one field
  of the local MRO the recomputed value compares unequal, under Python's \<open>!=\<close>, to the
  value the record holds in memory. The records are those of the queryset made distinct,
  with the hints of the fields, evaluated before anything is written; the written ones
  are exactly the records the loop flagged, in the order of the queryset and as the loop
  left them, cut into batches, none of them empty when the batch size is positive; the
  database after the loop is what writing these batches one after the other makes of it,
  each by one \<open>bulk_update\<close> call or, with \<open>use_fastupdate\<close> on, by the operations of
  \<open>fast_update\<close>. When no record of the queryset has such a field and the batch size is
  positive, nothing is written and the database is as it was. After the loop
  \<open>bulk_updater\<close> descends into the dependent records unless \<open>local_only\<close> is set or the
  queryset is empty. (A value that compares unequal to itself, as NaN does, makes its
  record written on every run.)
\<close>

theorem bulk_updater_writes_differing_records:
  assumes "bulk_updater (Suc n) orm queryset0 update_fields return_pks local_only w =
             (Inr r, w')"
  shows "let model = qs_model queryset0;
             mro = get_local_mro (the_resolver w) model update_fields;
             flds = remdups mro;
             queryset = evaluated_queryset (the_resolver w) queryset0 flds;
             w1 = init_fastupdate orm w;
             self = the_resolver w1;
             changed = differs (value_ne orm) self model mro
         in \<exists>rows rows' batches w2.
              (if mro = [] \<and> local_only \<and> \<not> return_pks then rows = []
               else fetch orm (database w) queryset = Inr rows) \<and>
              list_all2 (\<lambda>elem elem'. recalc (value_ne orm) self model mro elem False =
                                        Inr (elem', changed elem)) rows rows' \<and>
              concat batches =
                map snd (filter (\<lambda>(elem, elem'). changed elem) (zip rows rows')) \<and>
              (0 < batchsize self \<longrightarrow> [] \<notin> set batches) \<and>
              written orm self model flds batches (connection_hashes w1) (database w) =
                Inr (connection_hashes w2, database w2) \<and>
              (0 < batchsize self \<and> (\<forall>elem \<in> set rows. \<not> changed elem) \<longrightarrow>
                 batches = [] \<and> database w2 = database w) \<and>
              (if \<not> local_only \<and> rows' \<noteq> []
               then \<exists>u. update_dependent n orm (QuerySet queryset) (Some model) (Some flds)
                          None False w2 = (Inr u, w')
               else w' = w2)"
proof -
  define model where "model = qs_model queryset0"
  define mro where "mro = get_local_mro (the_resolver w) model update_fields"
  define flds where "flds = remdups mro"
  define queryset where "queryset = evaluated_queryset (the_resolver w) queryset0 flds"
  define w1 where "w1 = init_fastupdate orm w"
  define self where "self = the_resolver w1"
  define changed where "changed = differs (value_ne orm) self model mro"
  have d1: "database w1 = database w"
    by (simp add: w1_def)
  have fm: "flds = [] \<longleftrightarrow> mro = []"
    by (simp add: flds_def)
  from assms have run:
    "bulk_updater_with (update_dependent n orm) orm queryset0 update_fields return_pks
       local_only w = (Inr r, w')"
    by simp
  from run obtain select prefetch where
    h: "hints (the_resolver w) model flds [] [] = Inr (select, prefetch)"
    unfolding bulk_updater_with_def Let_def model_def mro_def flds_def
    by (auto split: sum.splits)
  have q: "queryset =
     (if prefetch \<noteq> [] then Prefetch_related prefetch
        (if select \<noteq> [] then Select_related select (Distinct queryset0) else Distinct queryset0)
      else (if select \<noteq> [] then Select_related select (Distinct queryset0)
            else Distinct queryset0))"
    unfolding queryset_def
    using h [unfolded model_def] by (rule evaluated_queryset_hints)
  have goal: "\<exists>rows rows' batches w2.
              (if mro = [] \<and> local_only \<and> \<not> return_pks then rows = []
               else fetch orm (database w) queryset = Inr rows) \<and>
              list_all2 (\<lambda>elem elem'. recalc (value_ne orm) self model mro elem False =
                                        Inr (elem', changed elem)) rows rows' \<and>
              concat batches =
                map snd (filter (\<lambda>(elem, elem'). changed elem) (zip rows rows')) \<and>
              (0 < batchsize self \<longrightarrow> [] \<notin> set batches) \<and>
              written orm self model flds batches (connection_hashes w1) (database w) =
                Inr (connection_hashes w2, database w2) \<and>
              (0 < batchsize self \<and> (\<forall>elem \<in> set rows. \<not> changed elem) \<longrightarrow>
                 batches = [] \<and> database w2 = database w) \<and>
              (if \<not> local_only \<and> rows' \<noteq> []
               then \<exists>u. update_dependent n orm (QuerySet queryset) (Some model) (Some flds)
                          None False w2 = (Inr u, w')
               else w' = w2)"
  proof (cases "mro = [] \<and> local_only \<and> \<not> return_pks")
    case True
    with run h fm have "w' = w1"
      unfolding bulk_updater_with_def Let_def
      by (simp add: model_def [symmetric] mro_def [symmetric] flds_def [symmetric]
            w1_def [symmetric])
    with True d1 show ?thesis
      apply -
      apply (rule exI [of _ "[]"])
      apply (rule exI [of _ "[]"])
      apply (rule exI [of _ "[]"])
      apply (rule exI [of _ w1])
      apply simp
      done
  next
    case False
    with fm have nf: "\<not> (flds = [] \<and> local_only \<and> \<not> return_pks)"
      by simp
    from nf have nf': "(flds = [] \<and> local_only \<and> \<not> return_pks) = False"
      by simp
    note run1 = run [unfolded bulk_updater_with_def Let_def qs_model.simps,
        folded model_def, folded mro_def, folded flds_def, folded w1_def,
        unfolded h sum.case prod.case nf' if_False, folded q]
    have run2:
      "(case fetch orm (database w1) queryset of
          Inl e \<Rightarrow> (Inl e, w1)
        | Inr rows \<Rightarrow>
            (case update_records (value_ne orm) (the_resolver w1) model mro rows of
               (walked, writes) \<Rightarrow>
                 (case update_all orm model writes w1 of
                    (Inl e, w2) \<Rightarrow> (Inl e, w2)
                  | (Inr _, w2) \<Rightarrow>
                      (case walked of
                         Inl e \<Rightarrow> (Inl e, w2)
                       | Inr rows' \<Rightarrow>
                           (case (if \<not> local_only \<and> rows' \<noteq> []
                                  then update_dependent n orm (QuerySet queryset)
                                         (Some model) (Some flds) None False w2
                                  else (Inr (), w2)) of
                              (Inl e, w3) \<Rightarrow> (Inl e, w3)
                            | (Inr _, w3) \<Rightarrow>
                                (Inr (if return_pks
                                      then Some (remdups (map pk rows'))
                                      else None,
                                      if truthy update_fields
                                      then Some (remdups (the update_fields @ flds))
                                      else update_fields), w3)))))) = (Inr r, w')"
      by (rule run1)
    from run2 obtain rows where
      f: "fetch orm (database w1) queryset = Inr rows"
      by (auto split: sum.splits)
    obtain walked writes where
      ur: "update_records (value_ne orm) self model mro rows = (walked, writes)"
      by (cases "update_records (value_ne orm) self model mro rows")
    from run2 f ur obtain u2 w2 where
      ua: "update_all orm model writes w1 = (Inr u2, w2)"
      by (auto simp: self_def split: sum.splits prod.splits)
    from run2 f ur ua obtain rows' where
      wk: "walked = Inr rows'"
      by (auto simp: self_def split: sum.splits prod.splits)
    from run2 f ur ua wk have desc:
      "if \<not> local_only \<and> rows' \<noteq> []
       then \<exists>u. update_dependent n orm (QuerySet queryset) (Some model) (Some flds)
                  None False w2 = (Inr u, w')
       else w' = w2"
      by (auto simp: self_def split: sum.splits prod.splits if_splits)
    from ur wk have ur': "update_records (value_ne orm) self model mro rows = (Inr rows', writes)"
      by simp
    from update_records_batches [OF ur'] obtain batches where
      b: "length rows' = length rows"
        "writes = map (\<lambda>b. Update b flds) batches"
        "concat batches =
           map snd (filter (\<lambda>(elem, elem'). changed elem) (zip rows rows'))"
        "0 < batchsize self \<longrightarrow> [] \<notin> set batches"
      unfolding flds_def changed_def by blast
    have rc: "list_all2 (\<lambda>elem elem'. recalc (value_ne orm) self model mro elem False =
                                        Inr (elem', changed elem)) rows rows'"
      unfolding changed_def using ur' by (rule update_records_recalc)
    from ua b(2) have "update_all orm model (map (\<lambda>b. Update b flds) batches) w1 = (Inr u2, w2)"
      by simp
    from update_all_written [OF this] have wr:
      "written orm self model flds batches (connection_hashes w1) (database w) =
         Inr (connection_hashes w2, database w2)"
      by (simp add: self_def d1)
    have zero: "0 < batchsize self \<and> (\<forall>elem \<in> set rows. \<not> changed elem) \<longrightarrow>
                 batches = [] \<and> database w2 = database w"
    proof (intro impI, elim conjE)
      assume p: "0 < batchsize self" and n: "\<forall>elem \<in> set rows. \<not> changed elem"
      from n have "filter (\<lambda>(elem, elem'). changed elem) (zip rows rows') = []"
        by (auto simp: filter_empty_conv dest: set_zip_leftD)
      with b(3) have "concat batches = []" by simp
      with p b(4) have e: "batches = []" by (auto intro: written_Nil_iff)
      with wr show "batches = [] \<and> database w2 = database w" by simp
    qed
    from False f d1 rc b(3) b(4) wr zero desc show ?thesis
      apply -
      apply (rule exI [of _ rows])
      apply (rule exI [of _ rows'])
      apply (rule exI [of _ batches])
      apply (rule exI [of _ w2])
      apply (auto split: if_splits)
      done
  qed
  then show ?thesis
    unfolding Let_def model_def mro_def flds_def queryset_def w1_def self_def changed_def .
qed

theorem bulk_updater_writes_differing_records_witness:
  "bulk_updater (Suc 0) demo_stats_orm (Objects_filter_pks ''Stat'' [Float 1, Float 2]) None
     False True
     (demo_stats_table [demo_stat 1 (Float 6) (Float 2) (Float 0),
                        demo_stat 2 (Float 6) (Float 2) (Float 3)]) =
     (Inr (None, None),
      snd (bulk_updater (Suc 0) demo_stats_orm (Objects_filter_pks ''Stat'' [Float 1, Float 2])
             None False True
             (demo_stats_table [demo_stat 1 (Float 6) (Float 2) (Float 0),
                                demo_stat 2 (Float 6) (Float 2) (Float 3)]))) \<and>
   snd (database
     (snd (bulk_updater (Suc 0) demo_stats_orm (Objects_filter_pks ''Stat'' [Float 1, Float 2])
             None False True
             (demo_stats_table [demo_stat 1 (Float 6) (Float 2) (Float 0),
                                demo_stat 2 (Float 6) (Float 2) (Float 3)])))) = [[Float 1]] \<and>
   (let w = demo_stats_table [demo_stat 1 (Float 6) (Float 2) (Float 0),
                              demo_stat 2 (Float 6) (Float 2) (Float 3)];
        queryset0 = Objects_filter_pks ''Stat'' [Float 1, Float 2];
        w' = snd (bulk_updater (Suc 0) demo_stats_orm queryset0 None False True w);
        model = qs_model queryset0;
        mro = get_local_mro (the_resolver w) model None;
        flds = remdups mro;
        queryset = evaluated_queryset (the_resolver w) queryset0 flds;
        w1 = init_fastupdate demo_stats_orm w;
        self = the_resolver w1;
        changed = differs (value_ne demo_stats_orm) self model mro
    in \<exists>rows rows' batches w2.
         (if mro = [] \<and> True \<and> \<not> False then rows = []
          else fetch demo_stats_orm (database w) queryset = Inr rows) \<and>
         list_all2 (\<lambda>elem elem'. recalc (value_ne demo_stats_orm) self model mro elem False =
                                   Inr (elem', changed elem)) rows rows' \<and>
         concat batches =
           map snd (filter (\<lambda>(elem, elem'). changed elem) (zip rows rows')) \<and>
         (0 < batchsize self \<longrightarrow> [] \<notin> set batches) \<and>
         written demo_stats_orm self model flds batches (connection_hashes w1) (database w) =
           Inr (connection_hashes w2, database w2) \<and>
         (0 < batchsize self \<and> (\<forall>elem \<in> set rows. \<not> changed elem) \<longrightarrow>
            batches = [] \<and> database w2 = database w) \<and>
         (if \<not> True \<and> rows' \<noteq> []
          then \<exists>u. update_dependent 0 demo_stats_orm (QuerySet queryset) (Some model)
                     (Some flds) None False w2 = (Inr u, w')
          else w' = w2))"
proof -
  let ?w = "demo_stats_table [demo_stat 1 (Float 6) (Float 2) (Float 0),
                              demo_stat 2 (Float 6) (Float 2) (Float 3)]"
  let ?q = "Objects_filter_pks ''Stat'' [Float 1, Float 2]"
  have f: "fst (bulk_updater (Suc 0) demo_stats_orm ?q None False True ?w) = Inr (None, None)"
    by code_simp
  have h: "bulk_updater (Suc 0) demo_stats_orm ?q None False True ?w =
             (Inr (None, None), snd (bulk_updater (Suc 0) demo_stats_orm ?q None False True ?w))"
    using f by (metis prod.collapse)
  have j: "snd (database (snd (bulk_updater (Suc 0) demo_stats_orm ?q None False True ?w))) =
             [[Float 1]]"
    by code_simp
  note t = bulk_updater_writes_differing_records [OF h]
  show ?thesis
    apply (rule conjI)
     apply (rule h)
    apply (rule conjI)
     apply (rule j)
    apply (unfold Let_def)
    apply (rule t [unfolded Let_def])
    done
qed

subsection \<open>The transaction of \<open>update_dependent\<close>\<close>

lemma atomic_failure:
  "atomic block w = (Inl e, w') \<Longrightarrow> database w' = database w"
  by (auto simp: atomic_def split: prod.splits sum.splits)

lemma update_entry_skipped:
  "\<not> update_local \<Longrightarrow>
   update_entry bulk_updater' instance model update_fields update_local w = (Inr update_fields, w)"
  by (simp add: update_entry_def)

lemma update_dependent_with_failure:
  assumes "update_dependent_with bulk_updater' orm instance model update_fields old update_local w =
             (Inl e, w')"
  shows "database w' =
         database (snd (update_entry bulk_updater' instance
                          (case model of Some m \<Rightarrow> m | None \<Rightarrow> u_get_model instance)
                          (map_option remdups update_fields) update_local w))"
proof -
  let ?entry = "update_entry bulk_updater' instance
                  (case model of Some m \<Rightarrow> m | None \<Rightarrow> u_get_model instance)
                  (map_option remdups update_fields) update_local w"
  obtain r w1 where en: "?entry = (r, w1)" by (cases ?entry)
  show ?thesis
  proof (cases r)
    case (Inl e1)
    with assms en show ?thesis
      by (simp add: update_dependent_with_def Let_def)
  next
    case (Inr fields_after)
    let ?qs = "u_querysets_for_update orm (database w1) (the_resolver w1)
                 (case model of Some m \<Rightarrow> m | None \<Rightarrow> u_get_model instance) instance
                 fields_after False"
    show ?thesis
    proof (cases ?qs)
      case (Inl e2)
      with assms en Inr show ?thesis
        by (simp add: update_dependent_with_def Let_def)
    next
      case updates: (Inr updates)
      show ?thesis
      proof (cases "updates = []")
        case True
        with assms en Inr updates show ?thesis
          by (simp add: update_dependent_with_def Let_def)
      next
        case False
        with assms en Inr updates
        have "atomic (update_dependents bulk_updater' updates old) w1 = (Inl e, w')"
          by (simp add: update_dependent_with_def Let_def)
        from atomic_failure [OF this] en show ?thesis by simp
      qed
    qed
  qed
qed

text \<open>
  Claim C5, as stated, at an explicit input: \<open>update_dependent\<close> is called for an item
  with stale computed fields and two tags, and the compute function of the second tag
  raises. The call fails; the update of the first tag is rolled back, but the item's own
  computed fields stay written (\<open>c3\<close> is 5 in the database, no longer 0): the entry node
  is updated and its dependents are not.
\<close>

theorem update_dependent_entry_not_rolled_back:
  "fst (update_dependent 3 demo_orm (Instance (demo_item 1 1 1 0 0 0)) None None None True
          demo_world) = Inl (Raised ''negative title'') \<and>
   column_of (database demo_world) ''Item'' ''c3'' = [Some 0] \<and>
   column_of (database demo_world) ''Tag'' ''label'' = [Some 0, Some 0] \<and>
   column_of (database (snd (update_dependent 3 demo_orm (Instance (demo_item 1 1 1 0 0 0))
      None None None True demo_world))) ''Item'' ''c3'' = [Some 5] \<and>
   column_of (database (snd (update_dependent 3 demo_orm (Instance (demo_item 1 1 1 0 0 0))
      None None None True demo_world))) ''Tag'' ''label'' = [Some 0, Some 0]"
  by code_simp

text \<open>
  Claim C5, amended. All writes of one \<open>update_dependent\<close> call to dependent records, at
  every level of the descent, happen inside the one atomic block the call opens: when
  the call fails, the database is as the update of the entry node's own computed fields
  left it, and when that update is switched off (\<open>update_local=False\<close>) the database is
  as it was before the call. The entry node's own update is made before the block and
  outside of it, and is not undone.
\<close>

theorem update_dependent_atomic_after_entry:
  assumes "update_dependent n orm instance model update_fields old update_local w = (Inl e, w')"
  shows "database w' = database (entry_world n orm instance model update_fields update_local w) \<and>
         (\<not> update_local \<longrightarrow> database w' = database w)"
proof (cases n)
  case 0
  with assms show ?thesis by (simp add: entry_world_def)
next
  case (Suc depth)
  with assms have
    "update_dependent_with (bulk_updater depth orm) orm instance model update_fields old
       update_local w = (Inl e, w')"
    by simp
  from update_dependent_with_failure [OF this] Suc
  have d: "database w' = database (entry_world n orm instance model update_fields update_local w)"
    by (simp add: entry_world_def)
  moreover have "database w' = database w" if "\<not> update_local"
    using d that Suc by (simp add: entry_world_def update_entry_skipped)
  ultimately show ?thesis by simp
qed

theorem update_dependent_atomic_after_entry_witness:
  "fst (update_dependent 3 demo_orm (Instance (demo_item 1 1 1 0 0 0)) None None None True
          demo_world) = Inl (Raised ''negative title'') \<and>
   database (snd (update_dependent 3 demo_orm (Instance (demo_item 1 1 1 0 0 0)) None None None
          True demo_world)) =
     database (entry_world 3 demo_orm (Instance (demo_item 1 1 1 0 0 0)) None None True
          demo_world) \<and>
   column_of (database (entry_world 3 demo_orm (Instance (demo_item 1 1 1 0 0 0)) None None True
          demo_world)) ''Item'' ''c3'' = [Some 5] \<and>
   fst (update_dependent 3 demo_orm (Instance (demo_item 1 1 1 0 0 0)) None None None False
          demo_world) = Inl (Raised ''negative title'') \<and>
   database (snd (update_dependent 3 demo_orm (Instance (demo_item 1 1 1 0 0 0)) None None None
          False demo_world)) = database demo_world"
proof -
  let ?t = "update_dependent 3 demo_orm (Instance (demo_item 1 1 1 0 0 0)) None None None True
              demo_world"
  let ?f = "update_dependent 3 demo_orm (Instance (demo_item 1 1 1 0 0 0)) None None None False
              demo_world"
  have t: "fst ?t = Inl (Raised ''negative title'')" by code_simp
  have f: "fst ?f = Inl (Raised ''negative title'')" by code_simp
  have c: "column_of (database (entry_world 3 demo_orm (Instance (demo_item 1 1 1 0 0 0))
      None None True demo_world)) ''Item'' ''c3'' = [Some 5]"
    by code_simp
  have t': "?t = (Inl (Raised ''negative title''), snd ?t)"
    by (simp add: t [symmetric])
  have f': "?f = (Inl (Raised ''negative title''), snd ?f)"
    by (simp add: f [symmetric])
  from update_dependent_atomic_after_entry [OF t']
  have a: "database (snd ?t) =
      database (entry_world 3 demo_orm (Instance (demo_item 1 1 1 0 0 0)) None None True
        demo_world)"
    by (rule conjunct1)
  from update_dependent_atomic_after_entry [OF f']
  have b: "database (snd ?f) = database demo_world"
    by blast
  from t a c f b show ?thesis by (intro conjI)
qed

end
